theory Spec2Isabelle
  imports Main "HOL-Library.Multiset" "HOL-Library.Sublist"
begin

section \<open>Data model\<close>

text \<open>
  The interfaces \<^verbatim>\<open>ItemDefinition\<close> and \<^verbatim>\<open>PlacedItem\<close> of the module \<^verbatim>\<open>types\<close>, field
  for field; \<^verbatim>\<open>GridMatrix\<close> is \<^verbatim>\<open>number[][]\<close>, a 0/1 matrix. A \<^verbatim>\<open>number\<close> that
  holds a coordinate or a size is an \<open>int\<close>: the source computes with doubles, which
  agree with the integers on safe integers (magnitude at most \<open>2^53 - 1\<close>). A loop
  counter that starts at 0 and is only incremented is a \<open>nat\<close>. The field \<^verbatim>\<open>id\<close> is
  named \<open>id_item\<close>, and the fields \<^verbatim>\<open>x\<close>, \<^verbatim>\<open>y\<close> of a placed item are named \<open>item_x\<close>,
  \<open>item_y\<close>.
\<close>

record ItemDefinition =
  id_item :: string
  name :: string
  color :: string
  shape :: "int list list"
  width :: int
  height :: int

record PlacedItem =
  instanceId :: string
  defId :: string
  item_x :: int
  item_y :: int
  rotation :: int

text \<open>The fields of class \<^verbatim>\<open>BackpackSystem\<close>.\<close>

record BackpackSystem =
  rows :: int
  cols :: int
  items :: "PlacedItem list"

text \<open>\<^verbatim>\<open>Record<string, ItemDefinition>\<close>: a lookup of a missing key gives \<^verbatim>\<open>undefined\<close>.\<close>

type_synonym catalog = "string \<rightharpoonup> ItemDefinition"

text \<open>
  The exceptions the class can raise: reading a property of \<^verbatim>\<open>undefined\<close> is a
  TypeError, \<^verbatim>\<open>Array(n)\<close> with an invalid length is a RangeError.
\<close>

datatype error = TypeError | RangeError

text \<open>The values of the counter of \<^verbatim>\<open>for (let i = 0; i < n; i++)\<close>.\<close>

definition js_range :: "int \<Rightarrow> nat list" where
  "js_range n = [0..<nat n]"

text \<open>
  \<^verbatim>\<open>Array.from({ length: rows }, () => Array(cols).fill(v))\<close>.
  \<^verbatim>\<open>Array.from\<close> clamps a negative length to 0 and constructs an array of that length,
  which raises RangeError above \<open>2^32 - 1\<close>; the callback runs once per row, and
  \<^verbatim>\<open>Array(cols)\<close> raises RangeError unless \<open>0 \<le> cols \<le> 2^32 - 1\<close>.
\<close>

definition new_grid :: "int \<Rightarrow> int \<Rightarrow> 'a \<Rightarrow> error + 'a list list" where
  "new_grid r c v =
     (if 4294967295 < r then Inl RangeError
      else if r \<le> 0 then Inr []
      else if c < 0 \<or> 4294967295 < c then Inl RangeError
      else Inr (replicate (nat r) (replicate (nat c) v)))"

text \<open>
  \<^verbatim>\<open>shape[r][c] === 1\<close>: a missing row is \<^verbatim>\<open>undefined\<close>, and indexing it raises; a missing
  entry of an existing row is \<^verbatim>\<open>undefined\<close>, which is not 1.
\<close>

definition shape_is_one :: "int list list \<Rightarrow> nat \<Rightarrow> nat \<Rightarrow> error + bool" where
  "shape_is_one sh r c =
     (if r < length sh then Inr (c < length (sh ! r) \<and> sh ! r ! c = 1)
      else Inl TypeError)"

section \<open>canPlaceItem\<close>

text \<open>
  \<^verbatim>\<open>getOccupancyGrid(ignoreInstanceId)\<close>: allocates the grid and returns it; the body
  reads neither the items nor its argument.
\<close>

definition getOccupancyGrid ::
  "BackpackSystem \<Rightarrow> string option \<Rightarrow> error + string option list list" where
  "getOccupancyGrid sys ignoreInstanceId = new_grid (rows sys) (cols sys) None"

text \<open>
  \<^verbatim>\<open>grid[gridY][gridX] !== null\<close>: a missing row raises; a missing entry of an existing
  row is \<^verbatim>\<open>undefined\<close>, which is not \<^verbatim>\<open>null\<close>.
\<close>

definition cell_not_null :: "string option list list \<Rightarrow> int \<Rightarrow> int \<Rightarrow> error + bool" where
  "cell_not_null grid gy gx =
     (if 0 \<le> gy \<and> gy < int (length grid)
      then Inr (if 0 \<le> gx \<and> gx < int (length (grid ! nat gy))
                then grid ! nat gy ! nat gx \<noteq> None else True)
      else Inl TypeError)"

text \<open>
  The inner loop of step 3 over the columns \<open>cs\<close> of shape row \<open>r\<close>. \<open>Inr False\<close> is the
  \<^verbatim>\<open>return false\<close> of the source, \<open>Inr True\<close> the end of the loop.
\<close>

fun check_row ::
  "int list list \<Rightarrow> string option list list \<Rightarrow> int \<Rightarrow> int \<Rightarrow> nat \<Rightarrow> nat list \<Rightarrow> error + bool"
where
  "check_row sh grid x y r [] = Inr True"
| "check_row sh grid x y r (c # cs) =
     (case shape_is_one sh r c of
        Inl e \<Rightarrow> Inl e
      | Inr occ \<Rightarrow>
          if occ then
            (case cell_not_null grid (y + int r) (x + int c) of
               Inl e \<Rightarrow> Inl e
             | Inr taken \<Rightarrow> if taken then Inr False else check_row sh grid x y r cs)
          else check_row sh grid x y r cs)"

text \<open>The outer loop of step 3 over the shape rows \<open>rs\<close>; \<open>w\<close> is \<^verbatim>\<open>itemDef.width\<close>.\<close>

fun check_rows ::
  "int list list \<Rightarrow> string option list list \<Rightarrow> int \<Rightarrow> int \<Rightarrow> int \<Rightarrow> nat list \<Rightarrow> error + bool"
where
  "check_rows sh grid x y w [] = Inr True"
| "check_rows sh grid x y w (r # rs) =
     (case check_row sh grid x y r (js_range w) of
        Inl e \<Rightarrow> Inl e
      | Inr ok \<Rightarrow> if ok then check_rows sh grid x y w rs else Inr False)"

text \<open>
  \<^verbatim>\<open>canPlaceItem(itemDef, x, y, ignoreInstanceId)\<close>. The sums of the bounds test are
  sums of integers; on safe integers they decide the test as the source's sums of
  doubles do.
\<close>

definition canPlaceItem ::
  "BackpackSystem \<Rightarrow> ItemDefinition \<Rightarrow> int \<Rightarrow> int \<Rightarrow> string option \<Rightarrow> error + bool" where
  "canPlaceItem sys itemDef x y ignoreInstanceId =
     (if x < 0 \<or> y < 0 \<or> x + width itemDef > cols sys \<or> y + height itemDef > rows sys
      then Inr False
      else
        (case getOccupancyGrid sys ignoreInstanceId of
           Inl e \<Rightarrow> Inl e
         | Inr grid \<Rightarrow>
             check_rows (shape itemDef) grid x y (width itemDef) (js_range (height itemDef))))"

section \<open>getOccupancyGridWithDefs\<close>

text \<open>
  \<^verbatim>\<open>grid[gy][gx] = v\<close>. The source writes only under the guard
  \<^verbatim>\<open>gy >= 0 && gy < this.rows && gx >= 0 && gx < this.cols\<close>, into the grid it allocated
  from the same \<^verbatim>\<open>this.rows\<close> and \<^verbatim>\<open>this.cols\<close>, so the write is in range.
\<close>

definition grid_set :: "'a list list \<Rightarrow> nat \<Rightarrow> nat \<Rightarrow> 'a \<Rightarrow> 'a list list" where
  "grid_set grid gy gx v = grid[gy := (grid ! gy)[gx := v]]"

text \<open>The loop over the columns \<open>cs\<close> of shape row \<open>r\<close> of one item.\<close>

fun mark_row ::
  "BackpackSystem \<Rightarrow> PlacedItem \<Rightarrow> int list list \<Rightarrow> string option list list \<Rightarrow> nat \<Rightarrow>
   nat list \<Rightarrow> error + string option list list"
where
  "mark_row sys item sh grid r [] = Inr grid"
| "mark_row sys item sh grid r (c # cs) =
     (case shape_is_one sh r c of
        Inl e \<Rightarrow> Inl e
      | Inr occ \<Rightarrow>
          if occ then
            (let gx = item_x item + int c; gy = item_y item + int r
             in if gy \<ge> 0 \<and> gy < rows sys \<and> gx \<ge> 0 \<and> gx < cols sys
                then mark_row sys item sh
                       (grid_set grid (nat gy) (nat gx) (Some (instanceId item))) r cs
                else mark_row sys item sh grid r cs)
          else mark_row sys item sh grid r cs)"

text \<open>The loop over the shape rows \<open>rs\<close> of one item; \<open>w\<close> is \<^verbatim>\<open>def.width\<close>.\<close>

fun mark_rows ::
  "BackpackSystem \<Rightarrow> PlacedItem \<Rightarrow> int list list \<Rightarrow> int \<Rightarrow> string option list list \<Rightarrow>
   nat list \<Rightarrow> error + string option list list"
where
  "mark_rows sys item sh w grid [] = Inr grid"
| "mark_rows sys item sh w grid (r # rs) =
     (case mark_row sys item sh grid r (js_range w) of
        Inl e \<Rightarrow> Inl e
      | Inr grid' \<Rightarrow> mark_rows sys item sh w grid' rs)"

text \<open>
  The loop over \<^verbatim>\<open>this.items\<close>. \<^verbatim>\<open>ignoreInstanceId\<close> is optional: \<open>None\<close> is
  \<^verbatim>\<open>undefined\<close>, which no instance id equals.
\<close>

fun mark_items ::
  "BackpackSystem \<Rightarrow> catalog \<Rightarrow> string option \<Rightarrow> string option list list \<Rightarrow>
   PlacedItem list \<Rightarrow> error + string option list list"
where
  "mark_items sys defs ignoreInstanceId grid [] = Inr grid"
| "mark_items sys defs ignoreInstanceId grid (item # rest) =
     (if Some (instanceId item) = ignoreInstanceId
      then mark_items sys defs ignoreInstanceId grid rest
      else
        (case defs (defId item) of
           None \<Rightarrow> mark_items sys defs ignoreInstanceId grid rest
         | Some d \<Rightarrow>
             (case mark_rows sys item (shape d) (width d) grid (js_range (height d)) of
                Inl e \<Rightarrow> Inl e
              | Inr grid' \<Rightarrow> mark_items sys defs ignoreInstanceId grid' rest)))"

definition getOccupancyGridWithDefs ::
  "BackpackSystem \<Rightarrow> catalog \<Rightarrow> string option \<Rightarrow> error + string option list list" where
  "getOccupancyGridWithDefs sys defs ignoreInstanceId =
     (case new_grid (rows sys) (cols sys) None of
        Inl e \<Rightarrow> Inl e
      | Inr grid \<Rightarrow> mark_items sys defs ignoreInstanceId grid (items sys))"

section \<open>organize\<close>

text \<open>
  The bounding-box area the comparator of the sort computes for a known item type.
\<close>

definition area :: "catalog \<Rightarrow> PlacedItem \<Rightarrow> int" where
  "area defs a = (case defs (defId a) of None \<Rightarrow> 0 | Some d \<Rightarrow> width d * height d)"

text \<open>
  \<^verbatim>\<open>[...this.items].sort((a, b) => areaB - areaA)\<close>. \<^verbatim>\<open>Array.prototype.sort\<close> is stable
  and puts \<open>a\<close> before \<open>b\<close> when the comparator is negative, that is when the area of \<open>a\<close>
  is the larger one: a stable ascending sort on the negated area. The comparator is not
  called on fewer than two elements; on two or more, every element is compared at
  least once, and the comparator raises TypeError on an item whose type is not in the
  catalog (\<^verbatim>\<open>defA.width\<close> of \<^verbatim>\<open>undefined\<close>).
\<close>

definition sort_items :: "catalog \<Rightarrow> PlacedItem list \<Rightarrow> error + PlacedItem list" where
  "sort_items defs its =
     (if length its < 2 then Inr its
      else if list_ex (\<lambda>a. defs (defId a) = None) its then Inl TypeError
      else Inr (sort_key (\<lambda>a. - area defs a) its))"

text \<open>
  The truth value of \<^verbatim>\<open>tempGrid[gy][gx]\<close>: a missing row raises, a missing entry is
  \<^verbatim>\<open>undefined\<close>, which is falsy.
\<close>

definition temp_cell :: "bool list list \<Rightarrow> nat \<Rightarrow> nat \<Rightarrow> error + bool" where
  "temp_cell tempGrid gy gx =
     (if gy < length tempGrid
      then Inr (gx < length (tempGrid ! gy) \<and> tempGrid ! gy ! gx)
      else Inl TypeError)"

text \<open>
  \<^verbatim>\<open>tempGrid[gy][gx] = true\<close>: a missing row raises; a write past the end of a row
  extends the row, and the entries in between are holes, which read as falsy.
\<close>

definition temp_mark :: "bool list list \<Rightarrow> nat \<Rightarrow> nat \<Rightarrow> error + bool list list" where
  "temp_mark tempGrid gy gx =
     (if gy < length tempGrid
      then Inr (tempGrid[gy :=
             (let row = tempGrid ! gy
              in if gx < length row then row[gx := True]
                 else row @ replicate (gx - length row) False @ [True])])
      else Inl TypeError)"

text \<open>
  The collision test at the candidate position \<open>(x, y)\<close>: the loop over the columns \<open>cs\<close>
  of shape row \<open>r\<close>. The result is the value of \<^verbatim>\<open>fits\<close> when the loop ends or breaks.
\<close>

fun fits_row ::
  "int list list \<Rightarrow> bool list list \<Rightarrow> nat \<Rightarrow> nat \<Rightarrow> nat \<Rightarrow> nat list \<Rightarrow> error + bool"
where
  "fits_row sh tempGrid x y r [] = Inr True"
| "fits_row sh tempGrid x y r (c # cs) =
     (case shape_is_one sh r c of
        Inl e \<Rightarrow> Inl e
      | Inr occ \<Rightarrow>
          if occ then
            (case temp_cell tempGrid (y + r) (x + c) of
               Inl e \<Rightarrow> Inl e
             | Inr taken \<Rightarrow> if taken then Inr False else fits_row sh tempGrid x y r cs)
          else fits_row sh tempGrid x y r cs)"

text \<open>The loop over the shape rows \<open>rs\<close>, left by \<^verbatim>\<open>if (!fits) break\<close>.\<close>

fun fits_rows ::
  "int list list \<Rightarrow> bool list list \<Rightarrow> nat \<Rightarrow> nat \<Rightarrow> int \<Rightarrow> nat list \<Rightarrow> error + bool"
where
  "fits_rows sh tempGrid x y w [] = Inr True"
| "fits_rows sh tempGrid x y w (r # rs) =
     (case fits_row sh tempGrid x y r (js_range w) of
        Inl e \<Rightarrow> Inl e
      | Inr fits \<Rightarrow> if fits then fits_rows sh tempGrid x y w rs else Inr False)"

text \<open>Marking the cells of the placed item in \<^verbatim>\<open>tempGrid\<close>: columns, then rows.\<close>

fun place_row ::
  "int list list \<Rightarrow> bool list list \<Rightarrow> nat \<Rightarrow> nat \<Rightarrow> nat \<Rightarrow> nat list \<Rightarrow> error + bool list list"
where
  "place_row sh tempGrid x y r [] = Inr tempGrid"
| "place_row sh tempGrid x y r (c # cs) =
     (case shape_is_one sh r c of
        Inl e \<Rightarrow> Inl e
      | Inr occ \<Rightarrow>
          if occ then
            (case temp_mark tempGrid (y + r) (x + c) of
               Inl e \<Rightarrow> Inl e
             | Inr tempGrid' \<Rightarrow> place_row sh tempGrid' x y r cs)
          else place_row sh tempGrid x y r cs)"

fun place_rows ::
  "int list list \<Rightarrow> bool list list \<Rightarrow> nat \<Rightarrow> nat \<Rightarrow> int \<Rightarrow> nat list \<Rightarrow> error + bool list list"
where
  "place_rows sh tempGrid x y w [] = Inr tempGrid"
| "place_rows sh tempGrid x y w (r # rs) =
     (case place_row sh tempGrid x y r (js_range w) of
        Inl e \<Rightarrow> Inl e
      | Inr tempGrid' \<Rightarrow> place_rows sh tempGrid' x y w rs)"

text \<open>
  The scan of one grid row \<open>y\<close> over the columns \<open>xs\<close>: the first \<open>x\<close> at which the item
  fits, where the source places the item and breaks.
\<close>

fun scan_x :: "ItemDefinition \<Rightarrow> bool list list \<Rightarrow> nat \<Rightarrow> nat list \<Rightarrow> error + nat option" where
  "scan_x d tempGrid y [] = Inr None"
| "scan_x d tempGrid y (x # xs) =
     (case fits_rows (shape d) tempGrid x y (width d) (js_range (height d)) of
        Inl e \<Rightarrow> Inl e
      | Inr fits \<Rightarrow> if fits then Inr (Some x) else scan_x d tempGrid y xs)"

text \<open>The scan over the grid rows \<open>ys\<close>, left by \<^verbatim>\<open>if (placed) break\<close>.\<close>

fun scan_y ::
  "BackpackSystem \<Rightarrow> ItemDefinition \<Rightarrow> bool list list \<Rightarrow> nat list \<Rightarrow> error + (nat \<times> nat) option"
where
  "scan_y sys d tempGrid [] = Inr None"
| "scan_y sys d tempGrid (y # ys) =
     (case scan_x d tempGrid y (js_range (cols sys - width d + 1)) of
        Inl e \<Rightarrow> Inl e
      | Inr (Some x) \<Rightarrow> Inr (Some (x, y))
      | Inr None \<Rightarrow> scan_y sys d tempGrid ys)"

text \<open>
  The loop over \<^verbatim>\<open>sortedItems\<close>. \<^verbatim>\<open>def.height\<close> of an unknown item type raises. A placed
  item is the copy \<^verbatim>\<open>{ ...item, x, y }\<close>, pushed to \<^verbatim>\<open>newItems\<close>; an item that fits
  nowhere is left out.
\<close>

fun organize_loop ::
  "BackpackSystem \<Rightarrow> catalog \<Rightarrow> PlacedItem list \<Rightarrow> bool list list \<Rightarrow> PlacedItem list \<Rightarrow>
   error + PlacedItem list"
where
  "organize_loop sys defs newItems tempGrid [] = Inr newItems"
| "organize_loop sys defs newItems tempGrid (item # rest) =
     (case defs (defId item) of
        None \<Rightarrow> Inl TypeError
      | Some d \<Rightarrow>
          (case scan_y sys d tempGrid (js_range (rows sys - height d + 1)) of
             Inl e \<Rightarrow> Inl e
           | Inr None \<Rightarrow> organize_loop sys defs newItems tempGrid rest
           | Inr (Some (x, y)) \<Rightarrow>
               (case place_rows (shape d) tempGrid x y (width d) (js_range (height d)) of
                  Inl e \<Rightarrow> Inl e
                | Inr tempGrid' \<Rightarrow>
                    organize_loop sys defs
                      (newItems @ [item\<lparr>item_x := int x, item_y := int y\<rparr>]) tempGrid' rest)))"

definition organize :: "BackpackSystem \<Rightarrow> catalog \<Rightarrow> error + PlacedItem list" where
  "organize sys defs =
     (case sort_items defs (items sys) of
        Inl e \<Rightarrow> Inl e
      | Inr sortedItems \<Rightarrow>
          (case new_grid (rows sys) (cols sys) False of
             Inl e \<Rightarrow> Inl e
           | Inr tempGrid \<Rightarrow> organize_loop sys defs [] tempGrid sortedItems))"

section \<open>Well-formed inputs\<close>

text \<open>
  The invariants of the data model: a shape matrix is rectangular, \<open>height\<close> is its row
  count and \<open>width\<close> the length of every row; a grid has sizes an array can have.
\<close>

definition wf_def :: "ItemDefinition \<Rightarrow> bool" where
  "wf_def d \<longleftrightarrow>
     height d = int (length (shape d)) \<and> 0 \<le> width d \<and>
     list_all (\<lambda>row. int (length row) = width d) (shape d)"

definition wf_grid :: "BackpackSystem \<Rightarrow> bool" where
  "wf_grid sys \<longleftrightarrow>
     0 \<le> rows sys \<and> rows sys \<le> 4294967295 \<and> 0 \<le> cols sys \<and> cols sys \<le> 4294967295"

text \<open>
  \<^verbatim>\<open>Number.isSafeInteger\<close>: an integer every double represents exactly. For safe
  \<open>a\<close>, \<open>b\<close> and \<open>c\<close> the test \<^verbatim>\<open>a + b > c\<close> on doubles is the test on integers: the
  sum is exact up to magnitude \<open>2^53\<close>, and a sum beyond \<open>2^53\<close> rounds to a double that
  is at least \<open>2^53\<close>, which is above \<open>c\<close>.
\<close>

definition safe_int :: "int \<Rightarrow> bool" where
  "safe_int n \<longleftrightarrow> - 9007199254740991 \<le> n \<and> n \<le> 9007199254740991"

definition in_bounds :: "BackpackSystem \<Rightarrow> ItemDefinition \<Rightarrow> int \<Rightarrow> int \<Rightarrow> bool" where
  "in_bounds sys d x y \<longleftrightarrow>
     0 \<le> x \<and> 0 \<le> y \<and> x + width d \<le> cols sys \<and> y + height d \<le> rows sys"

section \<open>Footprints\<close>

text \<open>
  The shape of \<open>d\<close> with its top-left corner at \<open>(x, y)\<close> has an occupied cell at the
  absolute position \<open>(gx, gy)\<close>: shape cell \<open>(r, c) = (gy - y, gx - x)\<close> lies inside the
  bounding box and holds 1.
\<close>

definition occupies :: "ItemDefinition \<Rightarrow> int \<Rightarrow> int \<Rightarrow> int \<Rightarrow> int \<Rightarrow> bool" where
  "occupies d x y gx gy \<longleftrightarrow>
     x \<le> gx \<and> gx < x + width d \<and> y \<le> gy \<and> gy < y + height d \<and>
     nat (gy - y) < length (shape d) \<and>
     nat (gx - x) < length (shape d ! nat (gy - y)) \<and>
     shape d ! nat (gy - y) ! nat (gx - x) = 1"

text \<open>
  A placed item covers \<open>(gx, gy)\<close> when it is not the ignored one, its type is in the
  catalog and its shape at its position has an occupied cell there. The expected owner of
  a cell is the last covering item in list order, or nobody.
\<close>

definition covers :: "catalog \<Rightarrow> string option \<Rightarrow> PlacedItem \<Rightarrow> int \<Rightarrow> int \<Rightarrow> bool" where
  "covers defs ign item gx gy \<longleftrightarrow>
     Some (instanceId item) \<noteq> ign \<and>
     (case defs (defId item) of
        None \<Rightarrow> False
      | Some d \<Rightarrow> occupies d (item_x item) (item_y item) gx gy)"

definition expected_owner ::
  "catalog \<Rightarrow> string option \<Rightarrow> PlacedItem list \<Rightarrow> int \<Rightarrow> int \<Rightarrow> string option" where
  "expected_owner defs ign its gx gy =
     (case filter (\<lambda>item. covers defs ign item gx gy) its of
        [] \<Rightarrow> None
      | cs \<Rightarrow> Some (instanceId (last cs)))"

text \<open>Every definition of the catalog is well formed.\<close>

definition catalog_wf :: "catalog \<Rightarrow> bool" where
  "catalog_wf defs \<longleftrightarrow> (\<forall>k d. defs k = Some d \<longrightarrow> wf_def d)"

text \<open>A matrix of \<open>R\<close> rows of \<open>C\<close> entries.\<close>

definition dims :: "'a list list \<Rightarrow> nat \<Rightarrow> nat \<Rightarrow> bool" where
  "dims g R C \<longleftrightarrow> length g = R \<and> (\<forall>i<R. length (g ! i) = C)"

section \<open>First fit, as the specification words it\<close>

text \<open>The absolute cells the shape of \<open>d\<close> occupies with its top-left corner at \<open>(x, y)\<close>.\<close>

definition footprint :: "ItemDefinition \<Rightarrow> int \<Rightarrow> int \<Rightarrow> (int \<times> int) list" where
  "footprint d x y =
     [(x + int c, y + int r). r \<leftarrow> js_range (height d), c \<leftarrow> js_range (width d),
        shape_is_one (shape d) r c = Inr True]"

text \<open>
  The candidate top-left positions in scan order: \<open>y\<close> from 0 to \<open>rows - height\<close>, and
  for each \<open>y\<close>, \<open>x\<close> from 0 to \<open>cols - width\<close>.
\<close>

definition candidates :: "BackpackSystem \<Rightarrow> ItemDefinition \<Rightarrow> (int \<times> int) list" where
  "candidates sys d =
     [(x, y). y \<leftarrow> [0..rows sys - height d], x \<leftarrow> [0..cols sys - width d]]"

text \<open>
  A position is feasible when no cell of the shape there is covered by an item placed
  so far.
\<close>

definition feasible ::
  "catalog \<Rightarrow> PlacedItem list \<Rightarrow> ItemDefinition \<Rightarrow> int \<times> int \<Rightarrow> bool" where
  "feasible defs placed d = (\<lambda>(x, y).
     list_all (\<lambda>(gx, gy). list_all (\<lambda>p. \<not> covers defs None p gx gy) placed)
       (footprint d x y))"

text \<open>
  First fit over a processing order: each item goes to the first feasible candidate, or
  is dropped when there is none.
\<close>

fun first_fit ::
  "BackpackSystem \<Rightarrow> catalog \<Rightarrow> PlacedItem list \<Rightarrow> PlacedItem list \<Rightarrow> PlacedItem list"
where
  "first_fit sys defs placed [] = placed"
| "first_fit sys defs placed (item # rest) =
     (case defs (defId item) of
        None \<Rightarrow> first_fit sys defs placed rest
      | Some d \<Rightarrow>
          (case find (feasible defs placed d) (candidates sys d) of
             None \<Rightarrow> first_fit sys defs placed rest
           | Some (x, y) \<Rightarrow>
               first_fit sys defs (placed @ [item\<lparr>item_x := x, item_y := y\<rparr>]) rest))"

text \<open>
  The sort key of the specification: the area of the bounding box of the item's shape,
  its width times its height.
\<close>

definition bounding_box_area :: "catalog \<Rightarrow> PlacedItem \<Rightarrow> int" where
  "bounding_box_area defs a =
     (case defs (defId a) of None \<Rightarrow> 0 | Some d \<Rightarrow> width d * height d)"

text \<open>The catalog knows the type of every item of the list.\<close>

definition known :: "catalog \<Rightarrow> PlacedItem list \<Rightarrow> bool" where
  "known defs its \<longleftrightarrow> list_all (\<lambda>a. defs (defId a) \<noteq> None) its"

text \<open>
  The working grid of organize agrees with a list of placed items: a cell is marked
  exactly when one of the items covers it.
\<close>

definition grid_rel ::
  "BackpackSystem \<Rightarrow> catalog \<Rightarrow> bool list list \<Rightarrow> PlacedItem list \<Rightarrow> bool" where
  "grid_rel sys defs g placed \<longleftrightarrow>
     dims g (nat (rows sys)) (nat (cols sys)) \<and>
     (\<forall>i<nat (rows sys). \<forall>j<nat (cols sys).
        g ! i ! j \<longleftrightarrow> (\<exists>p\<in>set placed. covers defs None p (int j) (int i)))"

text \<open>
  Two placed items share a cell; a list of placed items is packed when every item is of
  a known type and lies within the grid, and no item shares a cell with an earlier one.
\<close>

definition share_cell :: "catalog \<Rightarrow> PlacedItem \<Rightarrow> PlacedItem \<Rightarrow> bool" where
  "share_cell defs p q \<longleftrightarrow> (\<exists>gx gy. covers defs None p gx gy \<and> covers defs None q gx gy)"

definition packed :: "BackpackSystem \<Rightarrow> catalog \<Rightarrow> PlacedItem list \<Rightarrow> bool" where
  "packed sys defs placed \<longleftrightarrow>
     (\<forall>p\<in>set placed. \<exists>d. defs (defId p) = Some d \<and> in_bounds sys d (item_x p) (item_y p)) \<and>
     (\<forall>i<length placed. \<forall>j<i. \<not> share_cell defs (placed ! i) (placed ! j))"

text \<open>A placed item without its coordinates.\<close>

definition erase_xy :: "PlacedItem \<Rightarrow> PlacedItem" where
  "erase_xy p = p\<lparr>item_x := 0, item_y := 0\<rparr>"

section \<open>organize on a store\<close>

text \<open>
  Arrays and objects of the source are shared by reference, so a claim about what
  organize leaves untouched needs them in a store. A store maps references to
  PlacedItem objects and to arrays of references to such objects; allocation takes the
  next unused reference. \<^verbatim>\<open>tempGrid\<close> is local to organize and never shared, and the
  fields \<^verbatim>\<open>rows\<close> and \<^verbatim>\<open>cols\<close> are numbers: they stay values.
\<close>

type_synonym ref = nat

record store =
  objs :: "ref \<rightharpoonup> PlacedItem"
  arrs :: "ref \<rightharpoonup> ref list"
  next_ref :: ref

text \<open>An object literal and an array literal allocate.\<close>

definition alloc_obj :: "store \<Rightarrow> PlacedItem \<Rightarrow> store \<times> ref" where
  "alloc_obj s v =
     (s\<lparr>objs := (objs s)(next_ref s \<mapsto> v), next_ref := Suc (next_ref s)\<rparr>, next_ref s)"

definition alloc_arr :: "store \<Rightarrow> ref list \<Rightarrow> store \<times> ref" where
  "alloc_arr s xs =
     (s\<lparr>arrs := (arrs s)(next_ref s \<mapsto> xs), next_ref := Suc (next_ref s)\<rparr>, next_ref s)"

text \<open>\<^verbatim>\<open>a.push(r)\<close> writes the array \<open>a\<close> in place.\<close>

definition push :: "store \<Rightarrow> ref \<Rightarrow> ref \<Rightarrow> error + store" where
  "push s a r =
     (case arrs s a of
        None \<Rightarrow> Inl TypeError
      | Some xs \<Rightarrow> Inr (s\<lparr>arrs := (arrs s)(a \<mapsto> xs @ [r])\<rparr>))"

text \<open>
  \<^verbatim>\<open>.sort(cmp)\<close> on an array of references: as \<open>sort_items\<close>, with the comparator
  reading each object through the store. The caller writes the result back into the
  array that was sorted.
\<close>

definition obj_area :: "catalog \<Rightarrow> store \<Rightarrow> ref \<Rightarrow> int" where
  "obj_area defs s r = (case objs s r of None \<Rightarrow> 0 | Some a \<Rightarrow> area defs a)"

definition sort_refs :: "catalog \<Rightarrow> store \<Rightarrow> ref list \<Rightarrow> error + ref list" where
  "sort_refs defs s rs =
     (if length rs < 2 then Inr rs
      else if list_ex (\<lambda>r. case objs s r of None \<Rightarrow> True | Some a \<Rightarrow> defs (defId a) = None) rs
      then Inl TypeError
      else Inr (sort_key (\<lambda>r. - obj_area defs s r) rs))"

text \<open>
  The loop of organize on the store: \<^verbatim>\<open>{ ...item, x, y }\<close> allocates a new object,
  \<^verbatim>\<open>newItems.push\<close> appends its reference to the array \<open>newItems\<close>.
\<close>

fun organize_loop_store ::
  "BackpackSystem \<Rightarrow> catalog \<Rightarrow> store \<Rightarrow> ref \<Rightarrow> bool list list \<Rightarrow> ref list \<Rightarrow> error + store"
where
  "organize_loop_store sys defs s newItems tempGrid [] = Inr s"
| "organize_loop_store sys defs s newItems tempGrid (r # rest) =
     (case objs s r of
        None \<Rightarrow> Inl TypeError
      | Some item \<Rightarrow>
     (case defs (defId item) of
        None \<Rightarrow> Inl TypeError
      | Some d \<Rightarrow>
          (case scan_y sys d tempGrid (js_range (rows sys - height d + 1)) of
             Inl e \<Rightarrow> Inl e
           | Inr None \<Rightarrow> organize_loop_store sys defs s newItems tempGrid rest
           | Inr (Some (x, y)) \<Rightarrow>
               (case alloc_obj s (item\<lparr>item_x := int x, item_y := int y\<rparr>) of
                  (s1, copy) \<Rightarrow>
               (case push s1 newItems copy of
                  Inl e \<Rightarrow> Inl e
                | Inr s2 \<Rightarrow>
               (case place_rows (shape d) tempGrid x y (width d) (js_range (height d)) of
                  Inl e \<Rightarrow> Inl e
                | Inr tempGrid' \<Rightarrow>
                    organize_loop_store sys defs s2 newItems tempGrid' rest))))))"

text \<open>
  organize on the store. \<open>this_items\<close> is the reference held by \<^verbatim>\<open>this.items\<close>.
  \<^verbatim>\<open>[...this.items]\<close> allocates a copy of that array, \<^verbatim>\<open>.sort\<close> sorts the copy in
  place, \<^verbatim>\<open>newItems\<close> is a new empty array, and the result is its reference.
\<close>

definition organize_store ::
  "store \<Rightarrow> BackpackSystem \<Rightarrow> ref \<Rightarrow> catalog \<Rightarrow> error + store \<times> ref" where
  "organize_store s sys this_items defs =
     (case arrs s this_items of
        None \<Rightarrow> Inl TypeError
      | Some its \<Rightarrow>
     (case alloc_arr s its of
        (s1, sortedItems) \<Rightarrow>
     (case sort_refs defs s1 its of
        Inl e \<Rightarrow> Inl e
      | Inr sortedRefs \<Rightarrow>
     (case alloc_arr (s1\<lparr>arrs := (arrs s1)(sortedItems \<mapsto> sortedRefs)\<rparr>) [] of
        (s3, newItems) \<Rightarrow>
     (case new_grid (rows sys) (cols sys) False of
        Inl e \<Rightarrow> Inl e
      | Inr tempGrid \<Rightarrow>
     (case organize_loop_store sys defs s3 newItems tempGrid sortedRefs of
        Inl e \<Rightarrow> Inl e
      | Inr s' \<Rightarrow> Inr (s', newItems)))))))"

text \<open>Every reference in use lies below the next unused one.\<close>

definition store_wf :: "store \<Rightarrow> bool" where
  "store_wf s \<longleftrightarrow> (\<forall>r. (objs s r \<noteq> None \<or> arrs s r \<noteq> None) \<longrightarrow> r < next_ref s)"

section \<open>The catalog of the application\<close>

definition potion :: ItemDefinition where
  "potion = \<lparr>id_item = ''potion'', name = ''Health Potion'', color = ''bg-red-500'',
     shape = [[1], [1]], width = 1, height = 2\<rparr>"

definition sword :: ItemDefinition where
  "sword = \<lparr>id_item = ''sword'', name = ''Iron Sword'', color = ''bg-slate-400'',
     shape = [[0, 1, 0], [0, 1, 0], [1, 1, 1], [0, 1, 0]], width = 3, height = 4\<rparr>"

definition shield :: ItemDefinition where
  "shield = \<lparr>id_item = ''shield'', name = ''Wooden Shield'', color = ''bg-amber-600'',
     shape = [[1, 1], [1, 1]], width = 2, height = 2\<rparr>"

definition bow :: ItemDefinition where
  "bow = \<lparr>id_item = ''bow'', name = ''Longbow'', color = ''bg-emerald-600'',
     shape = [[1, 0], [1, 0], [1, 1]], width = 2, height = 3\<rparr>"

definition gem :: ItemDefinition where
  "gem = \<lparr>id_item = ''gem'', name = ''Magic Gem'', color = ''bg-purple-500'',
     shape = [[1]], width = 1, height = 1\<rparr>"

definition boots :: ItemDefinition where
  "boots = \<lparr>id_item = ''boots'', name = ''Leather Boots'', color = ''bg-yellow-700'',
     shape = [[1, 1], [1, 0]], width = 2, height = 2\<rparr>"

definition ITEM_DEFINITIONS :: catalog where
  "ITEM_DEFINITIONS =
     [''potion'' \<mapsto> potion, ''sword'' \<mapsto> sword, ''shield'' \<mapsto> shield,
      ''bow'' \<mapsto> bow, ''gem'' \<mapsto> gem, ''boots'' \<mapsto> boots]"

section \<open>Properties of canPlaceItem\<close>

lemma js_range_set: "r \<in> set (js_range n) \<longleftrightarrow> int r < n"
  by (auto simp: js_range_def)

lemma new_grid_wf:
  "wf_grid sys \<Longrightarrow>
   new_grid (rows sys) (cols sys) v
     = Inr (replicate (nat (rows sys)) (replicate (nat (cols sys)) v))"
  by (auto simp: new_grid_def wf_grid_def)

lemma shape_is_one_wf:
  "wf_def d \<Longrightarrow> int r < height d \<Longrightarrow>
   shape_is_one (shape d) r c = Inr (c < length (shape d ! r) \<and> shape d ! r ! c = 1)"
  by (simp add: shape_is_one_def wf_def_def)

lemma cell_not_null_empty:
  "0 \<le> gy \<Longrightarrow> gy < int R \<Longrightarrow> 0 \<le> gx \<Longrightarrow> gx < int C \<Longrightarrow>
   cell_not_null (replicate R (replicate C None)) gy gx = Inr False"
  by (simp add: cell_not_null_def)

lemma check_row_empty:
  assumes "wf_def d" "int r < height d" "0 \<le> x" "0 \<le> y"
    and "y + int r < int R" "\<forall>c\<in>set cs. x + int c < int C"
  shows "check_row (shape d) (replicate R (replicate C None)) x y r cs = Inr True"
  using assms(6)
proof (induction cs)
  case Nil
  show ?case by simp
next
  case (Cons c cs)
  have "cell_not_null (replicate R (replicate C None)) (y + int r) (x + int c) = Inr False"
    using assms(3-5) Cons.prems by (intro cell_not_null_empty) auto
  with Cons assms(1,2) show ?case
    by (simp add: shape_is_one_wf)
qed

lemma check_rows_empty:
  assumes "wf_def d" "0 \<le> x" "0 \<le> y" "x + width d \<le> int C"
    and "\<forall>r\<in>set rs. int r < height d \<and> y + int r < int R"
  shows "check_rows (shape d) (replicate R (replicate C None)) x y (width d) rs = Inr True"
  using assms(5)
proof (induction rs)
  case Nil
  show ?case by simp
next
  case (Cons r rs)
  have "check_row (shape d) (replicate R (replicate C None)) x y r (js_range (width d))
          = Inr True"
    using assms(1-4) Cons.prems by (intro check_row_empty) (auto simp: js_range_set)
  with Cons show ?case by simp
qed

lemma canPlaceItem_wf:
  assumes "wf_grid sys" "wf_def d"
  shows "canPlaceItem sys d x y ign = Inr (in_bounds sys d x y)"
proof (cases "in_bounds sys d x y")
  case False
  then show ?thesis
    by (auto simp: canPlaceItem_def in_bounds_def)
next
  case True
  have "check_rows (shape d) (replicate (nat (rows sys)) (replicate (nat (cols sys)) None))
          x y (width d) (js_range (height d)) = Inr True"
    using assms True
    by (intro check_rows_empty) (auto simp: in_bounds_def wf_grid_def js_range_set)
  with True assms(1) show ?thesis
    by (auto simp: canPlaceItem_def in_bounds_def getOccupancyGrid_def new_grid_wf)
qed

text \<open>
  C8. For safe integers \<open>x\<close>, \<open>y\<close>, \<open>width\<close>, \<open>height\<close>, \<open>rows\<close> and \<open>cols\<close>:
  whenever \<open>x < 0\<close> or \<open>y < 0\<close> or \<open>x + width > cols\<close> or \<open>y + height > rows\<close>,
  canPlaceItem returns false, for every shape, item list and ignore argument. The check
  comes before the occupancy grid is built or read: the result is the value false also
  where building or indexing the grid would raise.
\<close>

theorem canPlaceItem_out_of_bounds:
  assumes "safe_int x" and "safe_int y"
    and "safe_int (width itemDef)" and "safe_int (height itemDef)"
    and "safe_int (rows sys)" and "safe_int (cols sys)"
    and "x < 0 \<or> y < 0 \<or> x + width itemDef > cols sys \<or> y + height itemDef > rows sys"
  shows "canPlaceItem sys itemDef x y ignoreInstanceId = Inr False"
  using assms(7) by (simp add: canPlaceItem_def)

theorem canPlaceItem_out_of_bounds_witness:
  "safe_int 0 \<and> safe_int 7 \<and> safe_int (width shield) \<and> safe_int (height shield) \<and>
   safe_int (rows \<lparr>rows = 8, cols = -1, items = []\<rparr>) \<and>
   safe_int (cols \<lparr>rows = 8, cols = -1, items = []\<rparr>) \<and>
   ((0::int) < 0 \<or> (7::int) < 0 \<or>
      0 + width shield > cols \<lparr>rows = 8, cols = -1, items = []\<rparr> \<or>
      7 + height shield > rows \<lparr>rows = 8, cols = -1, items = []\<rparr>) \<and>
   canPlaceItem \<lparr>rows = 8, cols = -1, items = []\<rparr> shield 0 7 None = Inr False \<and>
   getOccupancyGrid \<lparr>rows = 8, cols = -1, items = []\<rparr> None = Inl RangeError"
proof -
  let ?sys = "\<lparr>rows = 8, cols = -1, items = []\<rparr> :: BackpackSystem"
  have s: "safe_int 0" "safe_int 7" "safe_int (width shield)" "safe_int (height shield)"
    "safe_int (rows ?sys)" "safe_int (cols ?sys)"
    by (simp_all add: safe_int_def shield_def)
  have b: "(0::int) < 0 \<or> (7::int) < 0 \<or> 0 + width shield > cols ?sys \<or>
           7 + height shield > rows ?sys"
    by (simp add: shield_def)
  have g: "getOccupancyGrid ?sys None = Inl RangeError"
    by (simp add: getOccupancyGrid_def new_grid_def)
  from canPlaceItem_out_of_bounds [OF s b, of None] s b g show ?thesis by blast
qed

text \<open>
  C3. For a well-formed grid and a well-formed candidate definition, canPlaceItem returns
  true exactly when \<open>x \<ge> 0\<close>, \<open>y \<ge> 0\<close>, \<open>x + width \<le> cols\<close> and \<open>y + height \<le> rows\<close>,
  for every placed-item list and every ignore argument; replacing the item list and the
  ignore argument does not change the result, and getOccupancyGrid returns the grid of
  \<open>rows\<close> by \<open>cols\<close> nulls whatever the items are.
\<close>

theorem canPlaceItem_iff_in_bounds:
  assumes "wf_grid sys" and "wf_def itemDef"
  shows "canPlaceItem sys itemDef x y ignoreInstanceId
           = Inr (0 \<le> x \<and> 0 \<le> y \<and> x + width itemDef \<le> cols sys \<and> y + height itemDef \<le> rows sys)
         \<and> canPlaceItem (sys\<lparr>items := its\<rparr>) itemDef x y ign' = canPlaceItem sys itemDef x y ignoreInstanceId
         \<and> getOccupancyGrid sys ignoreInstanceId
             = Inr (replicate (nat (rows sys)) (replicate (nat (cols sys)) None))"
proof (intro conjI)
  show "canPlaceItem sys itemDef x y ignoreInstanceId
          = Inr (0 \<le> x \<and> 0 \<le> y \<and> x + width itemDef \<le> cols sys \<and> y + height itemDef \<le> rows sys)"
    using canPlaceItem_wf [OF assms] by (simp add: in_bounds_def)
  show "canPlaceItem (sys\<lparr>items := its\<rparr>) itemDef x y ign'
          = canPlaceItem sys itemDef x y ignoreInstanceId"
    by (simp add: canPlaceItem_def getOccupancyGrid_def)
  show "getOccupancyGrid sys ignoreInstanceId
          = Inr (replicate (nat (rows sys)) (replicate (nat (cols sys)) None))"
    using assms(1) by (simp add: getOccupancyGrid_def new_grid_wf)
qed

theorem canPlaceItem_iff_in_bounds_witness:
  "wf_grid \<lparr>rows = 8, cols = 8,
      items = [\<lparr>instanceId = ''a'', defId = ''potion'', item_x = 0, item_y = 0, rotation = 0\<rparr>]\<rparr>
   \<and> wf_def shield
   \<and> canPlaceItem \<lparr>rows = 8, cols = 8,
        items = [\<lparr>instanceId = ''a'', defId = ''potion'', item_x = 0, item_y = 0, rotation = 0\<rparr>]\<rparr>
        shield 0 0 None = Inr True
   \<and> canPlaceItem \<lparr>rows = 8, cols = 8, items = []\<rparr> shield 0 0 (Some ''a'') = Inr True"
proof -
  let ?sys = "\<lparr>rows = 8, cols = 8,
      items = [\<lparr>instanceId = ''a'', defId = ''potion'', item_x = 0, item_y = 0, rotation = 0\<rparr>]\<rparr>"
  have g: "wf_grid ?sys" by (simp add: wf_grid_def)
  have d: "wf_def shield" by (simp add: wf_def_def shield_def)
  from canPlaceItem_iff_in_bounds [OF g d, of 0 0 None "[]" "Some ''a''"] g d
  show ?thesis by (simp add: shield_def)
qed

text \<open>
  C9. With no placed items, canPlaceItem returns true at every position that satisfies
  the bounds condition, for a well-formed grid and a well-formed shape.
\<close>

theorem canPlaceItem_empty_list:
  assumes "wf_grid sys" and "wf_def itemDef" and "items sys = []"
    and "0 \<le> x" and "0 \<le> y"
    and "x + width itemDef \<le> cols sys" and "y + height itemDef \<le> rows sys"
  shows "canPlaceItem sys itemDef x y ignoreInstanceId = Inr True"
  using canPlaceItem_wf [OF assms(1,2)] assms(4-7) by (simp add: in_bounds_def)

theorem canPlaceItem_empty_list_witness:
  "wf_grid \<lparr>rows = 8, cols = 8, items = []\<rparr> \<and> wf_def sword
   \<and> items \<lparr>rows = 8, cols = 8, items = []\<rparr> = []
   \<and> (0::int) \<le> 5 \<and> (0::int) \<le> 4
   \<and> 5 + width sword \<le> cols \<lparr>rows = 8, cols = 8, items = []\<rparr>
   \<and> 4 + height sword \<le> rows \<lparr>rows = 8, cols = 8, items = []\<rparr>
   \<and> canPlaceItem \<lparr>rows = 8, cols = 8, items = []\<rparr> sword 5 4 None = Inr True"
proof -
  let ?sys = "\<lparr>rows = 8, cols = 8, items = []\<rparr> :: BackpackSystem"
  have g: "wf_grid ?sys" by (simp add: wf_grid_def)
  have d: "wf_def sword" by (simp add: wf_def_def sword_def)
  have b: "5 + width sword \<le> cols ?sys" "4 + height sword \<le> rows ?sys"
    by (simp_all add: sword_def)
  from canPlaceItem_empty_list [OF g d _ _ _ b, of None] g d b
  show ?thesis by simp
qed

section \<open>Properties of getOccupancyGridWithDefs\<close>

lemma occupies_iff:
  "occupies d x y gx gy \<longleftrightarrow>
     (\<exists>r c. int r < height d \<and> int c < width d \<and> gx = x + int c \<and> gy = y + int r \<and>
            shape_is_one (shape d) r c = Inr True)"
proof
  assume o: "occupies d x y gx gy"
  show "\<exists>r c. int r < height d \<and> int c < width d \<and> gx = x + int c \<and> gy = y + int r \<and>
            shape_is_one (shape d) r c = Inr True"
    using o
    by (intro exI[of _ "nat (gy - y)"] exI[of _ "nat (gx - x)"])
       (auto simp: occupies_def shape_is_one_def)
next
  assume "\<exists>r c. int r < height d \<and> int c < width d \<and> gx = x + int c \<and> gy = y + int r \<and>
            shape_is_one (shape d) r c = Inr True"
  then show "occupies d x y gx gy"
    by (auto simp: occupies_def shape_is_one_def split: if_splits)
qed

lemma grid_set_nth:
  "gy < length g \<Longrightarrow> gx < length (g ! gy) \<Longrightarrow> i < length g \<Longrightarrow> j < length (g ! i) \<Longrightarrow>
   grid_set g gy gx v ! i ! j = (if i = gy \<and> j = gx then v else g ! i ! j)"
  by (auto simp: grid_set_def nth_list_update)

lemma dims_grid_set: "dims g R C \<Longrightarrow> dims (grid_set g gy gx v) R C"
  by (cases "gy < length g") (auto simp: dims_def grid_set_def nth_list_update)

lemma mark_row_spec:
  assumes r: "r < length sh"
  shows "dims g (nat (rows sys)) (nat (cols sys)) \<Longrightarrow>
   \<exists>g'. mark_row sys item sh g r cs = Inr g' \<and> dims g' (nat (rows sys)) (nat (cols sys)) \<and>
     (\<forall>i<nat (rows sys). \<forall>j<nat (cols sys). g' ! i ! j =
        (if int i = item_y item + int r \<and>
            (\<exists>c\<in>set cs. int j = item_x item + int c \<and> shape_is_one sh r c = Inr True)
         then Some (instanceId item) else g ! i ! j))"
proof (induction cs arbitrary: g)
  case Nil
  then show ?case by simp
next
  case (Cons c cs)
  let ?R = "nat (rows sys)" and ?C = "nat (cols sys)"
  let ?gx = "item_x item + int c" and ?gy = "item_y item + int r"
  obtain occ where occ: "shape_is_one sh r c = Inr occ"
    using r by (simp add: shape_is_one_def)
  show ?case
  proof (cases "occ \<and> ?gy \<ge> 0 \<and> ?gy < rows sys \<and> ?gx \<ge> 0 \<and> ?gx < cols sys")
    case True
    let ?g1 = "grid_set g (nat ?gy) (nat ?gx) (Some (instanceId item))"
    have d1: "dims ?g1 ?R ?C" using Cons.prems by (rule dims_grid_set)
    from Cons.IH [OF d1] obtain g' where
      g': "mark_row sys item sh ?g1 r cs = Inr g'" "dims g' ?R ?C"
      and v: "\<forall>i<?R. \<forall>j<?C. g' ! i ! j =
        (if int i = ?gy \<and> (\<exists>c\<in>set cs. int j = item_x item + int c \<and> shape_is_one sh r c = Inr True)
         then Some (instanceId item) else ?g1 ! i ! j)"
      by blast
    have run: "mark_row sys item sh g r (c # cs) = Inr g'"
      using True occ g'(1) by (simp add: Let_def)
    have g1: "?g1 ! i ! j = (if int i = ?gy \<and> int j = ?gx then Some (instanceId item) else g ! i ! j)"
      if "i < ?R" "j < ?C" for i j
    proof -
      have "nat ?gy < length g" "nat ?gx < length (g ! nat ?gy)" "i < length g" "j < length (g ! i)"
        using True Cons.prems that by (auto simp: dims_def)
      then have "?g1 ! i ! j = (if i = nat ?gy \<and> j = nat ?gx then Some (instanceId item) else g ! i ! j)"
        by (rule grid_set_nth)
      moreover have "(i = nat ?gy \<and> j = nat ?gx) \<longleftrightarrow> (int i = ?gy \<and> int j = ?gx)"
        using True by auto
      ultimately show ?thesis by simp
    qed
    have "\<forall>i<?R. \<forall>j<?C. g' ! i ! j =
        (if int i = ?gy \<and> (\<exists>c'\<in>set (c # cs). int j = item_x item + int c' \<and> shape_is_one sh r c' = Inr True)
         then Some (instanceId item) else g ! i ! j)"
      using v g1 True occ by auto
    with run g'(2) show ?thesis by blast
  next
    case False
    from Cons.IH [OF Cons.prems] obtain g' where
      g': "mark_row sys item sh g r cs = Inr g'" "dims g' ?R ?C"
      and v: "\<forall>i<?R. \<forall>j<?C. g' ! i ! j =
        (if int i = ?gy \<and> (\<exists>c\<in>set cs. int j = item_x item + int c \<and> shape_is_one sh r c = Inr True)
         then Some (instanceId item) else g ! i ! j)"
      by blast
    have run: "mark_row sys item sh g r (c # cs) = Inr g'"
      using False occ g'(1) by (auto simp: Let_def)
    have skip: "\<not> (int i = ?gy \<and> int j = ?gx \<and> shape_is_one sh r c = Inr True)"
      if "i < ?R" "j < ?C" for i j
      using False occ that by auto
    have "\<forall>i<?R. \<forall>j<?C. g' ! i ! j =
        (if int i = ?gy \<and> (\<exists>c'\<in>set (c # cs). int j = item_x item + int c' \<and> shape_is_one sh r c' = Inr True)
         then Some (instanceId item) else g ! i ! j)"
      using v skip by auto
    with run g'(2) show ?thesis by blast
  qed
qed

lemma mark_rows_spec:
  assumes rs: "\<forall>r\<in>set rs. r < length sh"
  shows "dims g (nat (rows sys)) (nat (cols sys)) \<Longrightarrow>
   \<exists>g'. mark_rows sys item sh w g rs = Inr g' \<and> dims g' (nat (rows sys)) (nat (cols sys)) \<and>
     (\<forall>i<nat (rows sys). \<forall>j<nat (cols sys). g' ! i ! j =
        (if \<exists>r\<in>set rs. \<exists>c. int c < w \<and> int i = item_y item + int r \<and>
               int j = item_x item + int c \<and> shape_is_one sh r c = Inr True
         then Some (instanceId item) else g ! i ! j))"
  using rs
proof (induction rs arbitrary: g)
  case Nil
  then show ?case by simp
next
  case (Cons r rs)
  let ?R = "nat (rows sys)" and ?C = "nat (cols sys)"
  have r: "r < length sh" using Cons.prems(2) by simp
  from mark_row_spec [OF r Cons.prems(1), of item "js_range w"] obtain g1 where
    g1: "mark_row sys item sh g r (js_range w) = Inr g1" "dims g1 ?R ?C"
    and v1: "\<forall>i<?R. \<forall>j<?C. g1 ! i ! j =
        (if int i = item_y item + int r \<and>
            (\<exists>c\<in>set (js_range w). int j = item_x item + int c \<and> shape_is_one sh r c = Inr True)
         then Some (instanceId item) else g ! i ! j)"
    by blast
  have rs: "\<forall>r\<in>set rs. r < length sh" using Cons.prems(2) by simp
  from Cons.IH [OF g1(2) rs] obtain g' where
    g': "mark_rows sys item sh w g1 rs = Inr g'" "dims g' ?R ?C"
    and v: "\<forall>i<?R. \<forall>j<?C. g' ! i ! j =
        (if \<exists>r\<in>set rs. \<exists>c. int c < w \<and> int i = item_y item + int r \<and>
               int j = item_x item + int c \<and> shape_is_one sh r c = Inr True
         then Some (instanceId item) else g1 ! i ! j)"
    by blast
  have run: "mark_rows sys item sh w g (r # rs) = Inr g'"
    using g1(1) g'(1) by simp
  have "\<forall>i<?R. \<forall>j<?C. g' ! i ! j =
        (if \<exists>r'\<in>set (r # rs). \<exists>c. int c < w \<and> int i = item_y item + int r' \<and>
               int j = item_x item + int c \<and> shape_is_one sh r' c = Inr True
         then Some (instanceId item) else g ! i ! j)"
    using v v1 by (auto simp: js_range_set)
  with run g'(2) show ?case by blast
qed


lemma expected_owner_Nil: "expected_owner defs ign [] gx gy = None"
  by (simp add: expected_owner_def)

lemma expected_owner_Cons:
  "expected_owner defs ign (item # its) gx gy =
     (case expected_owner defs ign its gx gy of
        Some i \<Rightarrow> Some i
      | None \<Rightarrow> if covers defs ign item gx gy then Some (instanceId item) else None)"
  by (auto simp: expected_owner_def split: list.splits)

lemma mark_items_spec:
  assumes wf: "catalog_wf defs"
  shows "dims g (nat (rows sys)) (nat (cols sys)) \<Longrightarrow>
   \<exists>g'. mark_items sys defs ign g its = Inr g' \<and> dims g' (nat (rows sys)) (nat (cols sys)) \<and>
     (\<forall>i<nat (rows sys). \<forall>j<nat (cols sys). g' ! i ! j =
        (case expected_owner defs ign its (int j) (int i) of
           None \<Rightarrow> g ! i ! j
         | Some k \<Rightarrow> Some k))"
proof (induction its arbitrary: g)
  case Nil
  then show ?case by (simp add: expected_owner_Nil)
next
  case (Cons item its)
  let ?R = "nat (rows sys)" and ?C = "nat (cols sys)"
  show ?case
  proof (cases "Some (instanceId item) \<noteq> ign \<and> defs (defId item) \<noteq> None")
    case False
    then have nc: "\<not> covers defs ign item gx gy" for gx gy
      by (auto simp: covers_def)
    have run: "mark_items sys defs ign g (item # its) = mark_items sys defs ign g its"
      using False by auto
    have eo: "expected_owner defs ign (item # its) gx gy = expected_owner defs ign its gx gy"
      for gx gy
      by (simp add: expected_owner_Cons nc split: option.splits)
    from Cons.IH [OF Cons.prems] show ?thesis
      unfolding run eo .
  next
    case True
    then obtain d where d: "defs (defId item) = Some d" by auto
    then have wd: "wf_def d" using wf by (auto simp: catalog_wf_def)
    have rs: "\<forall>r\<in>set (js_range (height d)). r < length (shape d)"
      using wd by (auto simp: js_range_set wf_def_def)
    from mark_rows_spec [OF rs Cons.prems, of item "width d"] obtain g1 where
      g1: "mark_rows sys item (shape d) (width d) g (js_range (height d)) = Inr g1" "dims g1 ?R ?C"
      and v1: "\<forall>i<?R. \<forall>j<?C. g1 ! i ! j =
        (if \<exists>r\<in>set (js_range (height d)). \<exists>c. int c < width d \<and> int i = item_y item + int r \<and>
               int j = item_x item + int c \<and> shape_is_one (shape d) r c = Inr True
         then Some (instanceId item) else g ! i ! j)"
      by blast
    have cov: "covers defs ign item gx gy \<longleftrightarrow>
        (\<exists>r\<in>set (js_range (height d)). \<exists>c. int c < width d \<and> gy = item_y item + int r \<and>
               gx = item_x item + int c \<and> shape_is_one (shape d) r c = Inr True)" for gx gy
      using True d by (auto simp: covers_def occupies_iff js_range_set)
    from Cons.IH [OF g1(2)] obtain g' where
      g': "mark_items sys defs ign g1 its = Inr g'" "dims g' ?R ?C"
      and v: "\<forall>i<?R. \<forall>j<?C. g' ! i ! j =
        (case expected_owner defs ign its (int j) (int i) of
           None \<Rightarrow> g1 ! i ! j
         | Some k \<Rightarrow> Some k)"
      by blast
    have run: "mark_items sys defs ign g (item # its) = Inr g'"
      using True d g1(1) g'(1) by auto
    have "\<forall>i<?R. \<forall>j<?C. g' ! i ! j =
        (case expected_owner defs ign (item # its) (int j) (int i) of
           None \<Rightarrow> g ! i ! j
         | Some k \<Rightarrow> Some k)"
      using v v1 by (auto simp: expected_owner_Cons cov split: option.splits)
    with run g'(2) show ?thesis by blast
  qed
qed

lemma dims_replicate: "dims (replicate R (replicate C v)) R C"
  by (simp add: dims_def)

lemma catalog_wf_ITEM_DEFINITIONS: "catalog_wf ITEM_DEFINITIONS"
  by (simp add: catalog_wf_def ITEM_DEFINITIONS_def wf_def_def potion_def sword_def
      shield_def bow_def gem_def boots_def)

lemma getOccupancyGridWithDefs_spec:
  assumes "wf_grid sys" and "catalog_wf defs"
  shows "(\<exists>grid. getOccupancyGridWithDefs sys defs ignoreInstanceId = Inr grid \<and>
           length grid = nat (rows sys) \<and>
           list_all (\<lambda>row. length row = nat (cols sys)) grid \<and>
           (\<forall>gy<nat (rows sys). \<forall>gx<nat (cols sys).
              grid ! gy ! gx = expected_owner defs ignoreInstanceId (items sys) (int gx) (int gy)))"
proof -
  let ?R = "nat (rows sys)" and ?C = "nat (cols sys)"
  let ?g0 = "replicate ?R (replicate ?C (None :: string option))"
  from mark_items_spec [OF assms(2) dims_replicate, of sys ignoreInstanceId None "items sys"]
  obtain g' where
    g': "mark_items sys defs ignoreInstanceId ?g0 (items sys) = Inr g'" "dims g' ?R ?C"
    and v: "\<forall>i<?R. \<forall>j<?C. g' ! i ! j =
        (case expected_owner defs ignoreInstanceId (items sys) (int j) (int i) of
           None \<Rightarrow> ?g0 ! i ! j
         | Some k \<Rightarrow> Some k)"
    by blast
  have "getOccupancyGridWithDefs sys defs ignoreInstanceId = Inr g'"
    using assms(1) g'(1) by (simp add: getOccupancyGridWithDefs_def new_grid_wf)
  moreover have "length g' = ?R" using g'(2) by (simp add: dims_def)
  moreover have "list_all (\<lambda>row. length row = ?C) g'"
    using g'(2) by (auto simp: dims_def list_all_length)
  moreover have "\<forall>gy<?R. \<forall>gx<?C.
      g' ! gy ! gx = expected_owner defs ignoreInstanceId (items sys) (int gx) (int gy)"
    using v by (auto split: option.splits)
  ultimately show ?thesis by blast
qed

lemma boots_grid:
  "getOccupancyGridWithDefs
      \<lparr>rows = 8, cols = 8,
       items = [\<lparr>instanceId = ''b'', defId = ''boots'', item_x = 0, item_y = 0, rotation = 0\<rparr>]\<rparr>
      ITEM_DEFINITIONS None
    = Inr [[Some ''b'', Some ''b'', None, None, None, None, None, None],
           [Some ''b'', None, None, None, None, None, None, None],
           replicate 8 None, replicate 8 None, replicate 8 None,
           replicate 8 None, replicate 8 None, replicate 8 None]"
  by (simp add: getOccupancyGridWithDefs_def new_grid_def ITEM_DEFINITIONS_def boots_def
      js_range_def shape_is_one_def grid_set_def upt_rec numeral_eq_Suc Let_def)

text \<open>
  C5. For a well-formed grid and catalog, every item list and every ignore argument,
  getOccupancyGridWithDefs returns a matrix of \<open>rows\<close> rows of \<open>cols\<close> cells in which
  cell \<open>(gx, gy)\<close> holds the instance id of the last item in list order that is not
  ignored, is known to the catalog and has an occupied shape cell \<open>(r, c)\<close> with
  \<open>gx = x + c\<close> and \<open>gy = y + r\<close>, and null when there is no such item. Items may lie
  anywhere: their cells outside the grid are dropped and nothing is raised. The boots
  shape at \<open>(0, 0)\<close> on the 8 by 8 grid marks \<open>(0,0)\<close>, \<open>(1,0)\<close> and \<open>(0,1)\<close> and
  leaves \<open>(1,1)\<close> and every other cell null.
\<close>

theorem getOccupancyGridWithDefs_cells:
  assumes "wf_grid sys" and "catalog_wf defs"
  shows "(\<exists>grid. getOccupancyGridWithDefs sys defs ignoreInstanceId = Inr grid \<and>
           length grid = nat (rows sys) \<and>
           list_all (\<lambda>row. length row = nat (cols sys)) grid \<and>
           (\<forall>gy<nat (rows sys). \<forall>gx<nat (cols sys).
              grid ! gy ! gx = expected_owner defs ignoreInstanceId (items sys) (int gx) (int gy)))
         \<and> getOccupancyGridWithDefs
             \<lparr>rows = 8, cols = 8,
              items = [\<lparr>instanceId = ''b'', defId = ''boots'', item_x = 0, item_y = 0, rotation = 0\<rparr>]\<rparr>
             ITEM_DEFINITIONS None
           = Inr [[Some ''b'', Some ''b'', None, None, None, None, None, None],
                  [Some ''b'', None, None, None, None, None, None, None],
                  replicate 8 None, replicate 8 None, replicate 8 None,
                  replicate 8 None, replicate 8 None, replicate 8 None]"
  using getOccupancyGridWithDefs_spec [OF assms] boots_grid by blast

theorem getOccupancyGridWithDefs_cells_witness:
  "wf_grid \<lparr>rows = 2, cols = 2,
      items = [\<lparr>instanceId = ''s'', defId = ''shield'', item_x = 1, item_y = -1, rotation = 0\<rparr>,
               \<lparr>instanceId = ''u'', defId = ''unknown'', item_x = 0, item_y = 0, rotation = 0\<rparr>]\<rparr>
   \<and> catalog_wf ITEM_DEFINITIONS
   \<and> (\<exists>grid. getOccupancyGridWithDefs \<lparr>rows = 2, cols = 2,
      items = [\<lparr>instanceId = ''s'', defId = ''shield'', item_x = 1, item_y = -1, rotation = 0\<rparr>,
               \<lparr>instanceId = ''u'', defId = ''unknown'', item_x = 0, item_y = 0, rotation = 0\<rparr>]\<rparr>
          ITEM_DEFINITIONS None = Inr grid \<and>
        grid ! 0 ! 1 = Some ''s'' \<and> grid ! 0 ! 0 = None \<and> grid ! 1 ! 1 = None)"
proof -
  let ?its = "[\<lparr>instanceId = ''s'', defId = ''shield'', item_x = 1, item_y = -1, rotation = 0\<rparr>,
               \<lparr>instanceId = ''u'', defId = ''unknown'', item_x = 0, item_y = 0, rotation = 0\<rparr>]"
  let ?sys = "\<lparr>rows = 2, cols = 2, items = ?its\<rparr>"
  have g: "wf_grid ?sys" by (simp add: wf_grid_def)
  have e: "expected_owner ITEM_DEFINITIONS None ?its 1 0 = Some ''s''"
          "expected_owner ITEM_DEFINITIONS None ?its 0 0 = None"
          "expected_owner ITEM_DEFINITIONS None ?its 1 1 = None"
    by (simp_all add: expected_owner_def covers_def occupies_def ITEM_DEFINITIONS_def shield_def)
  from getOccupancyGridWithDefs_cells [OF g catalog_wf_ITEM_DEFINITIONS, of None]
  obtain grid where
    r: "getOccupancyGridWithDefs ?sys ITEM_DEFINITIONS None = Inr grid"
    and v: "\<forall>gy<nat (rows ?sys). \<forall>gx<nat (cols ?sys).
              grid ! gy ! gx = expected_owner ITEM_DEFINITIONS None (items ?sys) (int gx) (int gy)"
    by blast
  have "grid ! 0 ! 1 = Some ''s''" "grid ! 0 ! 0 = None" "grid ! 1 ! 1 = None"
    using v [rule_format, of 0 1] v [rule_format, of 0 0] v [rule_format, of 1 1] e
    by simp_all
  with r g catalog_wf_ITEM_DEFINITIONS show ?thesis by blast
qed

section \<open>canPlaceItem and the placed items\<close>

text \<open>
  C1. The claim asks canPlaceItem to return false when the candidate's cells meet a
  placed item's cells. On the 8 by 8 grid holding a potion at \<open>(0, 0)\<close>, the shield at
  \<open>(0, 0)\<close> shares the cell \<open>(0, 0)\<close> with the potion, and canPlaceItem returns true:
  it reads the grid of getOccupancyGrid, which is all null. The same collision loop
  on the grid of getOccupancyGridWithDefs returns false.
\<close>

theorem canPlaceItem_accepts_overlap:
  "occupies potion 0 0 0 0 \<and> occupies shield 0 0 0 0
   \<and> canPlaceItem \<lparr>rows = 8, cols = 8,
        items = [\<lparr>instanceId = ''a'', defId = ''potion'', item_x = 0, item_y = 0, rotation = 0\<rparr>]\<rparr>
        shield 0 0 None = Inr True
   \<and> (case getOccupancyGridWithDefs \<lparr>rows = 8, cols = 8,
        items = [\<lparr>instanceId = ''a'', defId = ''potion'', item_x = 0, item_y = 0, rotation = 0\<rparr>]\<rparr>
        ITEM_DEFINITIONS None of
         Inl e \<Rightarrow> Inl e
       | Inr grid \<Rightarrow> check_rows (shape shield) grid 0 0 (width shield) (js_range (height shield)))
      = Inr False"
  by (simp add: occupies_def canPlaceItem_def getOccupancyGrid_def getOccupancyGridWithDefs_def
      new_grid_def ITEM_DEFINITIONS_def potion_def shield_def js_range_def shape_is_one_def
      cell_not_null_def grid_set_def upt_rec numeral_eq_Suc Let_def)

text \<open>
  C2. The claim asks canPlaceItem to return true for a placed item at its own position
  when its id is ignored, and false when it is not. For the gem placed at \<open>(0, 0)\<close>,
  which occupies the cell \<open>(0, 0)\<close>, canPlaceItem returns true in both cases.
\<close>

theorem canPlaceItem_self_not_detected:
  "occupies gem 0 0 0 0
   \<and> canPlaceItem \<lparr>rows = 8, cols = 8,
        items = [\<lparr>instanceId = ''a'', defId = ''gem'', item_x = 0, item_y = 0, rotation = 0\<rparr>]\<rparr>
        gem 0 0 (Some ''a'') = Inr True
   \<and> canPlaceItem \<lparr>rows = 8, cols = 8,
        items = [\<lparr>instanceId = ''a'', defId = ''gem'', item_x = 0, item_y = 0, rotation = 0\<rparr>]\<rparr>
        gem 0 0 None = Inr True"
  by (simp add: occupies_def canPlaceItem_def getOccupancyGrid_def new_grid_def gem_def
      js_range_def shape_is_one_def cell_not_null_def upt_rec numeral_eq_Suc)

section \<open>organize is first fit over the stably sorted items\<close>

lemma upto_as_nats: "map int [0..<nat (n + 1)] = [0..n]"
proof (rule nth_equalityI)
  show "length (map int [0..<nat (n + 1)]) = length [0..n]" by simp
next
  fix k assume "k < length (map int [0..<nat (n + 1)])"
  then have "0 + int k \<le> n" by simp
  then show "map int [0..<nat (n + 1)] ! k = [0..n] ! k"
    using \<open>k < length (map int [0..<nat (n + 1)])\<close> by (simp del: upt_Suc)
qed

lemma find_append_case:
  "find P (xs @ ys) = (case find P xs of None \<Rightarrow> find P ys | Some x \<Rightarrow> Some x)"
  by (induction xs) auto

lemma find_map_comp: "find P (map f xs) = map_option f (find (\<lambda>x. P (f x)) xs)"
  by (induction xs) auto

lemma set_footprint:
  "set (footprint d x y) =
     {(x + int c, y + int r) | r c. int r < height d \<and> int c < width d \<and>
        shape_is_one (shape d) r c = Inr True}"
  by (auto simp: footprint_def js_range_set)

lemma footprint_occupies:
  "(gx, gy) \<in> set (footprint d x y) \<longleftrightarrow> occupies d x y gx gy"
  by (auto simp: set_footprint occupies_iff)

lemma feasible_iff:
  "feasible defs placed d (x, y) \<longleftrightarrow>
     (\<forall>gx gy. occupies d x y gx gy \<longrightarrow> (\<forall>p\<in>set placed. \<not> covers defs None p gx gy))"
proof -
  have "feasible defs placed d (x, y) \<longleftrightarrow>
      (\<forall>gx gy. (gx, gy) \<in> set (footprint d x y) \<longrightarrow>
         (\<forall>p\<in>set placed. \<not> covers defs None p gx gy))"
    by (auto simp: feasible_def list_all_iff)
  then show ?thesis by (simp add: footprint_occupies)
qed

lemma fits_row_spec:
  assumes "r < length sh" "dims g R C" "y + r < R" "\<forall>c\<in>set cs. x + c < C"
  shows "fits_row sh g x y r cs
           = Inr (\<forall>c\<in>set cs. shape_is_one sh r c = Inr True \<longrightarrow> \<not> g ! (y + r) ! (x + c))"
  using assms(4)
proof (induction cs)
  case Nil
  show ?case by simp
next
  case (Cons c cs)
  obtain occ where occ: "shape_is_one sh r c = Inr occ"
    using assms(1) by (simp add: shape_is_one_def)
  have cell: "temp_cell g (y + r) (x + c) = Inr (g ! (y + r) ! (x + c))"
    using assms(2,3) Cons.prems by (simp add: temp_cell_def dims_def)
  from Cons show ?case
    by (auto simp: occ cell)
qed

lemma fits_rows_spec:
  assumes "dims g R C" "int x + w \<le> int C" "\<forall>r\<in>set rs. r < length sh \<and> y + r < R"
  shows "fits_rows sh g x y w rs
           = Inr (\<forall>r\<in>set rs. \<forall>c. int c < w \<longrightarrow> shape_is_one sh r c = Inr True
                    \<longrightarrow> \<not> g ! (y + r) ! (x + c))"
  using assms(3)
proof (induction rs)
  case Nil
  show ?case by simp
next
  case (Cons r rs)
  have cs: "\<forall>c\<in>set (js_range w). x + c < C"
    using assms(2) by (auto simp: js_range_set)
  have row: "fits_row sh g x y r (js_range w)
           = Inr (\<forall>c\<in>set (js_range w). shape_is_one sh r c = Inr True \<longrightarrow> \<not> g ! (y + r) ! (x + c))"
    using Cons.prems assms(1) cs by (intro fits_row_spec [where R = R and C = C]) auto
  from Cons show ?case
    by (auto simp: row js_range_set)
qed

lemma fits_feasible:
  assumes wd: "wf_def d" and rel: "grid_rel sys defs g placed"
    and bx: "int x + width d \<le> cols sys" and by': "int y + height d \<le> rows sys"
  shows "fits_rows (shape d) g x y (width d) (js_range (height d))
           = Inr (feasible defs placed d (int x, int y))"
proof -
  let ?R = "nat (rows sys)" and ?C = "nat (cols sys)"
  have d: "dims g ?R ?C" using rel by (simp add: grid_rel_def)
  have rs: "\<forall>r\<in>set (js_range (height d)). r < length (shape d) \<and> y + r < ?R"
    using wd by' by (auto simp: js_range_set wf_def_def)
  have w: "int x + width d \<le> int ?C" using bx by simp
  have "(\<forall>r\<in>set (js_range (height d)). \<forall>c. int c < width d \<longrightarrow>
            shape_is_one (shape d) r c = Inr True \<longrightarrow> \<not> g ! (y + r) ! (x + c))
        \<longleftrightarrow> feasible defs placed d (int x, int y)"
  proof
    assume a: "\<forall>r\<in>set (js_range (height d)). \<forall>c. int c < width d \<longrightarrow>
            shape_is_one (shape d) r c = Inr True \<longrightarrow> \<not> g ! (y + r) ! (x + c)"
    show "feasible defs placed d (int x, int y)"
      unfolding feasible_iff
    proof (intro allI impI ballI)
      fix gx gy p
      assume o: "occupies d (int x) (int y) gx gy" and p: "p \<in> set placed"
      from o obtain r c where rc: "int r < height d" "int c < width d"
        "gx = int x + int c" "gy = int y + int r" "shape_is_one (shape d) r c = Inr True"
        unfolding occupies_iff by blast
      have "\<not> g ! (y + r) ! (x + c)" using a rc by (auto simp: js_range_set)
      moreover have "y + r < ?R" "x + c < ?C" using rc by' bx by auto
      ultimately have "\<not> covers defs None p (int (x + c)) (int (y + r))"
        using rel p by (auto simp: grid_rel_def)
      then show "\<not> covers defs None p gx gy" using rc by simp
    qed
  next
    assume f: "feasible defs placed d (int x, int y)"
    show "\<forall>r\<in>set (js_range (height d)). \<forall>c. int c < width d \<longrightarrow>
            shape_is_one (shape d) r c = Inr True \<longrightarrow> \<not> g ! (y + r) ! (x + c)"
    proof (intro ballI allI impI)
      fix r c
      assume rc: "r \<in> set (js_range (height d))" "int c < width d"
        "shape_is_one (shape d) r c = Inr True"
      then have "occupies d (int x) (int y) (int (x + c)) (int (y + r))"
        unfolding occupies_iff by (auto simp: js_range_set)
      then have "\<forall>p\<in>set placed. \<not> covers defs None p (int (x + c)) (int (y + r))"
        using f unfolding feasible_iff by blast
      moreover have "y + r < ?R" "x + c < ?C" using rc by' bx by (auto simp: js_range_set)
      ultimately show "\<not> g ! (y + r) ! (x + c)"
        using rel by (auto simp: grid_rel_def)
    qed
  qed
  with fits_rows_spec [OF d w rs] show ?thesis by simp
qed

lemma scan_x_spec:
  assumes "wf_def d" "grid_rel sys defs g placed" "int y + height d \<le> rows sys"
    and "\<forall>x\<in>set xs. int x + width d \<le> cols sys"
  shows "scan_x d g y xs = Inr (find (\<lambda>x. feasible defs placed d (int x, int y)) xs)"
  using assms(4)
proof (induction xs)
  case Nil
  show ?case by simp
next
  case (Cons x xs)
  have "fits_rows (shape d) g x y (width d) (js_range (height d))
           = Inr (feasible defs placed d (int x, int y))"
    using assms(1-3) Cons.prems by (intro fits_feasible) auto
  with Cons show ?case by simp
qed

lemma scan_y_spec:
  assumes "wf_def d" "grid_rel sys defs g placed"
    and "\<forall>y\<in>set ys. int y + height d \<le> rows sys"
  shows "scan_y sys d g ys
           = Inr (find (\<lambda>(x, y). feasible defs placed d (int x, int y))
                   [(x, y). y \<leftarrow> ys, x \<leftarrow> js_range (cols sys - width d + 1)])"
  using assms(3)
proof (induction ys)
  case Nil
  show ?case by simp
next
  case (Cons y ys)
  have xs: "\<forall>x\<in>set (js_range (cols sys - width d + 1)). int x + width d \<le> cols sys"
    by (auto simp: js_range_set)
  have row: "scan_x d g y (js_range (cols sys - width d + 1))
           = Inr (find (\<lambda>x. feasible defs placed d (int x, int y))
                    (js_range (cols sys - width d + 1)))"
    using assms(1,2) Cons.prems xs by (intro scan_x_spec) auto
  from Cons show ?case
    by (auto simp: row find_append_case find_map_comp split: option.splits)
qed

lemma candidates_nat:
  "candidates sys d =
     map (\<lambda>(x, y). (int x, int y))
       [(x, y). y \<leftarrow> js_range (rows sys - height d + 1), x \<leftarrow> js_range (cols sys - width d + 1)]"
proof -
  have "[0..rows sys - height d] = map int (js_range (rows sys - height d + 1))"
       "[0..cols sys - width d] = map int (js_range (cols sys - width d + 1))"
    by (simp_all add: js_range_def upto_as_nats)
  then show ?thesis
    by (simp add: candidates_def map_concat comp_def)
qed

lemma scan_candidates:
  assumes "wf_def d" "grid_rel sys defs g placed"
  shows "scan_y sys d g (js_range (rows sys - height d + 1))
           = Inr (find (\<lambda>(x, y). feasible defs placed d (int x, int y))
                   [(x, y). y \<leftarrow> js_range (rows sys - height d + 1),
                            x \<leftarrow> js_range (cols sys - width d + 1)])"
    and "find (feasible defs placed d) (candidates sys d)
           = map_option (\<lambda>(x, y). (int x, int y))
               (find (\<lambda>(x, y). feasible defs placed d (int x, int y))
                   [(x, y). y \<leftarrow> js_range (rows sys - height d + 1),
                            x \<leftarrow> js_range (cols sys - width d + 1)])"
proof -
  show "scan_y sys d g (js_range (rows sys - height d + 1))
           = Inr (find (\<lambda>(x, y). feasible defs placed d (int x, int y))
                   [(x, y). y \<leftarrow> js_range (rows sys - height d + 1),
                            x \<leftarrow> js_range (cols sys - width d + 1)])"
    using assms by (intro scan_y_spec) (auto simp: js_range_set)
  show "find (feasible defs placed d) (candidates sys d)
           = map_option (\<lambda>(x, y). (int x, int y))
               (find (\<lambda>(x, y). feasible defs placed d (int x, int y))
                   [(x, y). y \<leftarrow> js_range (rows sys - height d + 1),
                            x \<leftarrow> js_range (cols sys - width d + 1)])"
    unfolding candidates_nat find_map_comp
    by (simp add: case_prod_unfold)
qed


lemma int_add_eq: "(int a = int b + int c) = (a = b + c)"
  by linarith

lemma find_Some_mem: "find P xs = Some x \<Longrightarrow> x \<in> set xs"
  by (induction xs) (auto split: if_splits)

lemma temp_mark_in_range:
  "gy < length g \<Longrightarrow> gx < length (g ! gy) \<Longrightarrow> temp_mark g gy gx = Inr (grid_set g gy gx True)"
  by (simp add: temp_mark_def grid_set_def)

lemma place_row_spec:
  assumes "r < length sh" "y + r < R" "\<forall>c\<in>set cs. x + c < C"
  shows "dims g R C \<Longrightarrow>
   \<exists>g'. place_row sh g x y r cs = Inr g' \<and> dims g' R C \<and>
     (\<forall>i<R. \<forall>j<C. g' ! i ! j \<longleftrightarrow>
        g ! i ! j \<or> (i = y + r \<and> (\<exists>c\<in>set cs. j = x + c \<and> shape_is_one sh r c = Inr True)))"
  using assms(3)
proof (induction cs arbitrary: g)
  case Nil
  then show ?case by simp
next
  case (Cons c cs)
  obtain occ where occ: "shape_is_one sh r c = Inr occ"
    using assms(1) by (simp add: shape_is_one_def)
  have cs: "\<forall>c\<in>set cs. x + c < C" using Cons.prems(2) by simp
  show ?case
  proof (cases occ)
    case False
    from Cons.IH [OF Cons.prems(1) cs] obtain g' where
      g': "place_row sh g x y r cs = Inr g'" "dims g' R C"
      and v: "\<forall>i<R. \<forall>j<C. g' ! i ! j \<longleftrightarrow>
        g ! i ! j \<or> (i = y + r \<and> (\<exists>c\<in>set cs. j = x + c \<and> shape_is_one sh r c = Inr True))"
      by blast
    have run: "place_row sh g x y r (c # cs) = Inr g'"
      using False occ g'(1) by simp
    have "\<forall>i<R. \<forall>j<C. g' ! i ! j \<longleftrightarrow>
        g ! i ! j \<or> (i = y + r \<and> (\<exists>c'\<in>set (c # cs). j = x + c' \<and> shape_is_one sh r c' = Inr True))"
      using v occ False by auto
    with run g'(2) show ?thesis by blast
  next
    case True
    let ?g1 = "grid_set g (y + r) (x + c) True"
    have inr: "y + r < length g" "x + c < length (g ! (y + r))"
      using Cons.prems assms(2) by (auto simp: dims_def)
    have mark: "temp_mark g (y + r) (x + c) = Inr ?g1"
      using inr by (rule temp_mark_in_range)
    have d1: "dims ?g1 R C" using Cons.prems(1) by (rule dims_grid_set)
    from Cons.IH [OF d1 cs] obtain g' where
      g': "place_row sh ?g1 x y r cs = Inr g'" "dims g' R C"
      and v: "\<forall>i<R. \<forall>j<C. g' ! i ! j \<longleftrightarrow>
        ?g1 ! i ! j \<or> (i = y + r \<and> (\<exists>c\<in>set cs. j = x + c \<and> shape_is_one sh r c = Inr True))"
      by blast
    have run: "place_row sh g x y r (c # cs) = Inr g'"
      using True occ mark g'(1) by simp
    have g1: "?g1 ! i ! j = (if i = y + r \<and> j = x + c then True else g ! i ! j)"
      if "i < R" "j < C" for i j
      using inr that Cons.prems(1) by (intro grid_set_nth) (auto simp: dims_def)
    have "\<forall>i<R. \<forall>j<C. g' ! i ! j \<longleftrightarrow>
        g ! i ! j \<or> (i = y + r \<and> (\<exists>c'\<in>set (c # cs). j = x + c' \<and> shape_is_one sh r c' = Inr True))"
      using v g1 occ True by auto
    with run g'(2) show ?thesis by blast
  qed
qed

lemma place_rows_spec:
  assumes "int x + w \<le> int C" "\<forall>r\<in>set rs. r < length sh \<and> y + r < R"
  shows "dims g R C \<Longrightarrow>
   \<exists>g'. place_rows sh g x y w rs = Inr g' \<and> dims g' R C \<and>
     (\<forall>i<R. \<forall>j<C. g' ! i ! j \<longleftrightarrow>
        g ! i ! j \<or> (\<exists>r\<in>set rs. \<exists>c. int c < w \<and> i = y + r \<and> j = x + c \<and>
                        shape_is_one sh r c = Inr True))"
  using assms(2)
proof (induction rs arbitrary: g)
  case Nil
  then show ?case by simp
next
  case (Cons r rs)
  have cs: "\<forall>c\<in>set (js_range w). x + c < C"
    using assms(1) by (auto simp: js_range_set)
  have r: "r < length sh" "y + r < R" using Cons.prems(2) by auto
  from place_row_spec [OF r cs Cons.prems(1)] obtain g1 where
    g1: "place_row sh g x y r (js_range w) = Inr g1" "dims g1 R C"
    and v1: "\<forall>i<R. \<forall>j<C. g1 ! i ! j \<longleftrightarrow>
        g ! i ! j \<or> (i = y + r \<and> (\<exists>c\<in>set (js_range w). j = x + c \<and> shape_is_one sh r c = Inr True))"
    by blast
  have rs: "\<forall>r\<in>set rs. r < length sh \<and> y + r < R" using Cons.prems(2) by simp
  from Cons.IH [OF g1(2) rs] obtain g' where
    g': "place_rows sh g1 x y w rs = Inr g'" "dims g' R C"
    and v: "\<forall>i<R. \<forall>j<C. g' ! i ! j \<longleftrightarrow>
        g1 ! i ! j \<or> (\<exists>r\<in>set rs. \<exists>c. int c < w \<and> i = y + r \<and> j = x + c \<and>
                        shape_is_one sh r c = Inr True)"
    by blast
  have run: "place_rows sh g x y w (r # rs) = Inr g'"
    using g1(1) g'(1) by simp
  have "\<forall>i<R. \<forall>j<C. g' ! i ! j \<longleftrightarrow>
        g ! i ! j \<or> (\<exists>r'\<in>set (r # rs). \<exists>c. int c < w \<and> i = y + r' \<and> j = x + c \<and>
                        shape_is_one sh r' c = Inr True)"
    using v v1 by (auto simp: js_range_set)
  with run g'(2) show ?case by blast
qed

lemma place_grid_rel:
  assumes wd: "wf_def d" and rel: "grid_rel sys defs g placed"
    and item: "defs (defId item) = Some d"
    and bx: "int x + width d \<le> cols sys" and by': "int y + height d \<le> rows sys"
  shows "\<exists>g'. place_rows (shape d) g x y (width d) (js_range (height d)) = Inr g' \<and>
          grid_rel sys defs g' (placed @ [item\<lparr>item_x := int x, item_y := int y\<rparr>])"
proof -
  let ?R = "nat (rows sys)" and ?C = "nat (cols sys)"
  let ?p = "item\<lparr>item_x := int x, item_y := int y\<rparr>"
  have d: "dims g ?R ?C" using rel by (simp add: grid_rel_def)
  have rs: "\<forall>r\<in>set (js_range (height d)). r < length (shape d) \<and> y + r < ?R"
    using wd by' by (auto simp: js_range_set wf_def_def)
  have w: "int x + width d \<le> int ?C" using bx by simp
  from place_rows_spec [OF w rs d] obtain g' where
    g': "place_rows (shape d) g x y (width d) (js_range (height d)) = Inr g'" "dims g' ?R ?C"
    and v: "\<forall>i<?R. \<forall>j<?C. g' ! i ! j \<longleftrightarrow>
        g ! i ! j \<or> (\<exists>r\<in>set (js_range (height d)). \<exists>c. int c < width d \<and> i = y + r \<and> j = x + c \<and>
                        shape_is_one (shape d) r c = Inr True)"
    by blast
  have cov: "covers defs None ?p (int j) (int i) \<longleftrightarrow>
      (\<exists>r\<in>set (js_range (height d)). \<exists>c. int c < width d \<and> i = y + r \<and> j = x + c \<and>
                        shape_is_one (shape d) r c = Inr True)" for i j
  proof -
    have "covers defs None ?p (int j) (int i) \<longleftrightarrow> occupies d (int x) (int y) (int j) (int i)"
      using item by (simp add: covers_def)
    also have "\<dots> \<longleftrightarrow> (\<exists>r c. int r < height d \<and> int c < width d \<and> int j = int x + int c \<and>
        int i = int y + int r \<and> shape_is_one (shape d) r c = Inr True)"
      by (rule occupies_iff)
    also have "\<dots> \<longleftrightarrow> (\<exists>r\<in>set (js_range (height d)). \<exists>c. int c < width d \<and> i = y + r \<and> j = x + c \<and>
                        shape_is_one (shape d) r c = Inr True)"
      by (auto simp: js_range_set int_add_eq)
    finally show ?thesis .
  qed
  have "\<forall>i<?R. \<forall>j<?C. g' ! i ! j \<longleftrightarrow>
      (\<exists>p\<in>set (placed @ [?p]). covers defs None p (int j) (int i))"
  proof (intro allI impI)
    fix i j assume ij: "i < ?R" "j < ?C"
    have "g ! i ! j \<longleftrightarrow> (\<exists>p\<in>set placed. covers defs None p (int j) (int i))"
      using rel ij by (simp add: grid_rel_def)
    with v ij cov [of j i] show "g' ! i ! j \<longleftrightarrow>
      (\<exists>p\<in>set (placed @ [?p]). covers defs None p (int j) (int i))"
      by auto
  qed
  with g' show ?thesis by (auto simp: grid_rel_def)
qed

lemma organize_loop_spec:
  assumes wf: "catalog_wf defs"
  shows "known defs its \<Longrightarrow> grid_rel sys defs g placed \<Longrightarrow>
         organize_loop sys defs placed g its = Inr (first_fit sys defs placed its)"
proof (induction its arbitrary: g placed)
  case Nil
  show ?case by simp
next
  case (Cons item its)
  from Cons.prems(1) obtain d where d: "defs (defId item) = Some d"
    by (auto simp: known_def)
  have wd: "wf_def d" using wf d by (auto simp: catalog_wf_def)
  have k: "known defs its" using Cons.prems(1) by (simp add: known_def)
  let ?nats = "[(x, y). y \<leftarrow> js_range (rows sys - height d + 1),
                        x \<leftarrow> js_range (cols sys - width d + 1)]"
  let ?P = "\<lambda>(x, y). feasible defs placed d (int x, int y)"
  note sc = scan_candidates [OF wd Cons.prems(2)]
  show ?case
  proof (cases "find ?P ?nats")
    case None
    then show ?thesis
      using d sc Cons.IH [OF k Cons.prems(2)] by simp
  next
    case (Some xy)
    obtain x y where xy: "xy = (x, y)" by (cases xy)
    have "(x, y) \<in> set ?nats" using Some xy find_Some_mem by fastforce
    then have b: "int x + width d \<le> cols sys" "int y + height d \<le> rows sys"
      by (auto simp: js_range_set)
    from place_grid_rel [OF wd Cons.prems(2) d b] obtain g' where
      g': "place_rows (shape d) g x y (width d) (js_range (height d)) = Inr g'"
      and rel': "grid_rel sys defs g' (placed @ [item\<lparr>item_x := int x, item_y := int y\<rparr>])"
      by blast
    show ?thesis
      using d sc Some xy g' Cons.IH [OF k rel'] by simp
  qed
qed

lemma sort_key_short: "length xs < 2 \<Longrightarrow> sort_key f xs = xs"
  by (cases xs rule: remdups_adj.cases) auto

lemma grid_rel_empty:
  "grid_rel sys defs (replicate (nat (rows sys)) (replicate (nat (cols sys)) False)) []"
  by (simp add: grid_rel_def dims_replicate)

lemma organize_spec:
  assumes "wf_grid sys" "catalog_wf defs" "known defs (items sys)"
  shows "organize sys defs
           = Inr (first_fit sys defs [] (sort_key (\<lambda>a. - area defs a) (items sys)))"
proof -
  let ?order = "sort_key (\<lambda>a. - area defs a) (items sys)"
  have s: "sort_items defs (items sys) = Inr ?order"
    using assms(3) by (auto simp: sort_items_def sort_key_short known_def list_ex_iff list_all_iff)
  have k: "known defs ?order"
    using assms(3) by (simp add: known_def list_all_iff)
  from organize_loop_spec [OF assms(2) k grid_rel_empty]
  show ?thesis
    using assms(1) s by (simp add: organize_def new_grid_wf)
qed

lemma organize_2x2:
  "organize \<lparr>rows = 2, cols = 2,
      items = [\<lparr>instanceId = ''A'', defId = ''gem'', item_x = 5, item_y = 5, rotation = 0\<rparr>,
               \<lparr>instanceId = ''B'', defId = ''gem'', item_x = 4, item_y = 4, rotation = 0\<rparr>,
               \<lparr>instanceId = ''C'', defId = ''gem'', item_x = 3, item_y = 3, rotation = 0\<rparr>,
               \<lparr>instanceId = ''D'', defId = ''gem'', item_x = 2, item_y = 2, rotation = 0\<rparr>]\<rparr>
      ITEM_DEFINITIONS
   = Inr [\<lparr>instanceId = ''A'', defId = ''gem'', item_x = 0, item_y = 0, rotation = 0\<rparr>,
          \<lparr>instanceId = ''B'', defId = ''gem'', item_x = 1, item_y = 0, rotation = 0\<rparr>,
          \<lparr>instanceId = ''C'', defId = ''gem'', item_x = 0, item_y = 1, rotation = 0\<rparr>,
          \<lparr>instanceId = ''D'', defId = ''gem'', item_x = 1, item_y = 1, rotation = 0\<rparr>]"
  by (simp add: organize_def sort_items_def area_def new_grid_def ITEM_DEFINITIONS_def gem_def
      js_range_def shape_is_one_def temp_cell_def temp_mark_def upt_rec numeral_eq_Suc Let_def)

lemma mset_two: "mset xs = {#a, b#} \<Longrightarrow> xs = [a, b] \<or> xs = [b, a]"
proof -
  assume m: "mset xs = {#a, b#}"
  then have "length xs = 2" by (metis size_mset size_add_mset size_empty numeral_2_eq_2)
  then obtain u v where xs: "xs = [u, v]"
    by (cases xs; cases "tl xs") auto
  with m show ?thesis by (auto simp: add_eq_conv_ex)
qed

lemma area_bounding_box: "area defs a = bounding_box_area defs a"
  by (simp add: area_def bounding_box_area_def)

lemma organize_by_area:
  "organize \<lparr>rows = 3, cols = 3,
      items = [\<lparr>instanceId = ''A'', defId = ''gem'', item_x = 0, item_y = 0, rotation = 0\<rparr>,
               \<lparr>instanceId = ''P'', defId = ''potion'', item_x = 1, item_y = 0, rotation = 0\<rparr>,
               \<lparr>instanceId = ''B'', defId = ''gem'', item_x = 2, item_y = 0, rotation = 0\<rparr>,
               \<lparr>instanceId = ''S'', defId = ''shield'', item_x = 0, item_y = 2, rotation = 90\<rparr>]\<rparr>
      ITEM_DEFINITIONS
   = Inr [\<lparr>instanceId = ''S'', defId = ''shield'', item_x = 0, item_y = 0, rotation = 90\<rparr>,
          \<lparr>instanceId = ''P'', defId = ''potion'', item_x = 2, item_y = 0, rotation = 0\<rparr>,
          \<lparr>instanceId = ''A'', defId = ''gem'', item_x = 0, item_y = 2, rotation = 0\<rparr>,
          \<lparr>instanceId = ''B'', defId = ''gem'', item_x = 1, item_y = 2, rotation = 0\<rparr>]"
  by (simp add: organize_def sort_items_def area_def new_grid_def ITEM_DEFINITIONS_def
      gem_def potion_def shield_def js_range_def shape_is_one_def temp_cell_def temp_mark_def
      upt_rec numeral_eq_Suc Let_def)

text \<open>
  C6. For a well-formed grid and catalog that knows every item, organize processes the
  items in an order that is sorted by descending bounding-box area (width times height
  of the item's shape), is a permutation of the input and keeps the input order among
  items of equal area (a stable sort), and its result is the first fit over that order:
  each item goes to the first candidate position, scanning \<open>y\<close> from 0 to
  \<open>rows - height\<close> and then \<open>x\<close> from 0 to \<open>cols - width\<close>, at which none of its
  cells is covered by an item placed before it. On the 2 by 2 grid, four 1 by 1 items in
  the input order A, B, C, D end at \<open>(0,0)\<close>, \<open>(1,0)\<close>, \<open>(0,1)\<close> and \<open>(1,1)\<close>. On the
  3 by 3 grid, the input order gem A, potion P, gem B, shield S is processed as S, P,
  A, B: the shield (area 4) goes to \<open>(0,0)\<close>, the potion (area 2) to \<open>(2,0)\<close>, and
  the gems (area 1) to \<open>(0,2)\<close> and \<open>(1,2)\<close> in their input order.
\<close>

theorem organize_first_fit:
  assumes "wf_grid sys" and "catalog_wf defs" and "known defs (items sys)"
  shows "(\<exists>order.
            sorted_wrt (\<lambda>a b. bounding_box_area defs a \<ge> bounding_box_area defs b) order \<and>
            mset order = mset (items sys) \<and>
            (\<forall>k. filter (\<lambda>a. bounding_box_area defs a = k) order
                   = filter (\<lambda>a. bounding_box_area defs a = k) (items sys)) \<and>
            organize sys defs = Inr (first_fit sys defs [] order))
         \<and> organize \<lparr>rows = 2, cols = 2,
              items = [\<lparr>instanceId = ''A'', defId = ''gem'', item_x = 5, item_y = 5, rotation = 0\<rparr>,
                       \<lparr>instanceId = ''B'', defId = ''gem'', item_x = 4, item_y = 4, rotation = 0\<rparr>,
                       \<lparr>instanceId = ''C'', defId = ''gem'', item_x = 3, item_y = 3, rotation = 0\<rparr>,
                       \<lparr>instanceId = ''D'', defId = ''gem'', item_x = 2, item_y = 2, rotation = 0\<rparr>]\<rparr>
              ITEM_DEFINITIONS
           = Inr [\<lparr>instanceId = ''A'', defId = ''gem'', item_x = 0, item_y = 0, rotation = 0\<rparr>,
                  \<lparr>instanceId = ''B'', defId = ''gem'', item_x = 1, item_y = 0, rotation = 0\<rparr>,
                  \<lparr>instanceId = ''C'', defId = ''gem'', item_x = 0, item_y = 1, rotation = 0\<rparr>,
                  \<lparr>instanceId = ''D'', defId = ''gem'', item_x = 1, item_y = 1, rotation = 0\<rparr>]
         \<and> organize \<lparr>rows = 3, cols = 3,
              items = [\<lparr>instanceId = ''A'', defId = ''gem'', item_x = 0, item_y = 0, rotation = 0\<rparr>,
                       \<lparr>instanceId = ''P'', defId = ''potion'', item_x = 1, item_y = 0, rotation = 0\<rparr>,
                       \<lparr>instanceId = ''B'', defId = ''gem'', item_x = 2, item_y = 0, rotation = 0\<rparr>,
                       \<lparr>instanceId = ''S'', defId = ''shield'', item_x = 0, item_y = 2, rotation = 90\<rparr>]\<rparr>
              ITEM_DEFINITIONS
           = Inr [\<lparr>instanceId = ''S'', defId = ''shield'', item_x = 0, item_y = 0, rotation = 90\<rparr>,
                  \<lparr>instanceId = ''P'', defId = ''potion'', item_x = 2, item_y = 0, rotation = 0\<rparr>,
                  \<lparr>instanceId = ''A'', defId = ''gem'', item_x = 0, item_y = 2, rotation = 0\<rparr>,
                  \<lparr>instanceId = ''B'', defId = ''gem'', item_x = 1, item_y = 2, rotation = 0\<rparr>]"
proof -
  let ?f = "\<lambda>a. - area defs a"
  let ?order = "sort_key ?f (items sys)"
  have "sorted (map ?f ?order)" by (rule sorted_sort_key)
  then have 1: "sorted_wrt (\<lambda>a b. bounding_box_area defs a \<ge> bounding_box_area defs b) ?order"
    by (simp add: sorted_map area_bounding_box)
  have 2: "mset ?order = mset (items sys)" by simp
  have 3: "filter (\<lambda>a. bounding_box_area defs a = k) ?order
             = filter (\<lambda>a. bounding_box_area defs a = k) (items sys)" for k
    using sort_key_stable [of ?f "- k" "items sys"] by (simp add: area_bounding_box)
  have 4: "organize sys defs = Inr (first_fit sys defs [] ?order)"
    using assms by (rule organize_spec)
  from 1 2 3 4 organize_2x2 organize_by_area show ?thesis by blast
qed

theorem organize_first_fit_witness:
  "wf_grid \<lparr>rows = 3, cols = 3,
      items = [\<lparr>instanceId = ''A'', defId = ''gem'', item_x = 0, item_y = 0, rotation = 0\<rparr>,
               \<lparr>instanceId = ''S'', defId = ''shield'', item_x = 0, item_y = 0, rotation = 0\<rparr>]\<rparr>
   \<and> catalog_wf ITEM_DEFINITIONS
   \<and> known ITEM_DEFINITIONS
       [\<lparr>instanceId = ''A'', defId = ''gem'', item_x = 0, item_y = 0, rotation = 0\<rparr>,
        \<lparr>instanceId = ''S'', defId = ''shield'', item_x = 0, item_y = 0, rotation = 0\<rparr>]
   \<and> organize \<lparr>rows = 3, cols = 3,
          items = [\<lparr>instanceId = ''A'', defId = ''gem'', item_x = 0, item_y = 0, rotation = 0\<rparr>,
                   \<lparr>instanceId = ''S'', defId = ''shield'', item_x = 0, item_y = 0, rotation = 0\<rparr>]\<rparr>
          ITEM_DEFINITIONS
        = Inr (first_fit \<lparr>rows = 3, cols = 3,
          items = [\<lparr>instanceId = ''A'', defId = ''gem'', item_x = 0, item_y = 0, rotation = 0\<rparr>,
                   \<lparr>instanceId = ''S'', defId = ''shield'', item_x = 0, item_y = 0, rotation = 0\<rparr>]\<rparr>
          ITEM_DEFINITIONS []
          [\<lparr>instanceId = ''S'', defId = ''shield'', item_x = 0, item_y = 0, rotation = 0\<rparr>,
           \<lparr>instanceId = ''A'', defId = ''gem'', item_x = 0, item_y = 0, rotation = 0\<rparr>])"
proof -
  let ?a = "\<lparr>instanceId = ''A'', defId = ''gem'', item_x = 0, item_y = 0, rotation = 0\<rparr>"
  let ?s = "\<lparr>instanceId = ''S'', defId = ''shield'', item_x = 0, item_y = 0, rotation = 0\<rparr>"
  let ?sys = "\<lparr>rows = 3, cols = 3, items = [?a, ?s]\<rparr>"
  have g: "wf_grid ?sys" by (simp add: wf_grid_def)
  have k: "known ITEM_DEFINITIONS [?a, ?s]" by (simp add: known_def ITEM_DEFINITIONS_def)
  have k': "known ITEM_DEFINITIONS (items ?sys)" using k by simp
  have ba: "bounding_box_area ITEM_DEFINITIONS ?a = 1"
    and bs: "bounding_box_area ITEM_DEFINITIONS ?s = 4"
    by (simp_all add: bounding_box_area_def ITEM_DEFINITIONS_def gem_def shield_def)
  have ne: "?a \<noteq> ?s" by simp
  from organize_first_fit [OF g catalog_wf_ITEM_DEFINITIONS k'] obtain order where
    srt: "sorted_wrt (\<lambda>a b. bounding_box_area ITEM_DEFINITIONS a
                          \<ge> bounding_box_area ITEM_DEFINITIONS b) order"
    and ms: "mset order = mset (items ?sys)"
    and run: "organize ?sys ITEM_DEFINITIONS = Inr (first_fit ?sys ITEM_DEFINITIONS [] order)"
    by blast
  have "mset order = {#?a, ?s#}" using ms by simp
  then have "order = [?a, ?s] \<or> order = [?s, ?a]"
    by (rule mset_two)
  moreover have "order \<noteq> [?a, ?s]"
  proof
    assume "order = [?a, ?s]"
    with srt have "bounding_box_area ITEM_DEFINITIONS ?a \<ge> bounding_box_area ITEM_DEFINITIONS ?s"
      by simp
    then show False unfolding ba bs by simp
  qed
  ultimately have "order = [?s, ?a]" by blast
  with run g k catalog_wf_ITEM_DEFINITIONS show ?thesis by blast
qed

text \<open>
  C4. The claim asks every core operation to skip an item whose type is missing from the
  catalog. getOccupancyGridWithDefs does: for one item of the unknown type \<open>ghost\<close> it
  returns the empty 8 by 8 grid. organize does not: on the same list it raises
  TypeError, reading \<^verbatim>\<open>def.height\<close> of \<^verbatim>\<open>undefined\<close>.
\<close>

theorem organize_unknown_type_raises:
  "organize \<lparr>rows = 8, cols = 8,
      items = [\<lparr>instanceId = ''a'', defId = ''ghost'', item_x = 0, item_y = 0, rotation = 0\<rparr>]\<rparr>
      ITEM_DEFINITIONS = Inl TypeError
   \<and> getOccupancyGridWithDefs \<lparr>rows = 8, cols = 8,
      items = [\<lparr>instanceId = ''a'', defId = ''ghost'', item_x = 0, item_y = 0, rotation = 0\<rparr>]\<rparr>
      ITEM_DEFINITIONS None = Inr (replicate 8 (replicate 8 None))"
  by (simp add: organize_def sort_items_def getOccupancyGridWithDefs_def new_grid_def
      ITEM_DEFINITIONS_def)

section \<open>What first fit guarantees\<close>

lemma candidates_in_bounds:
  "(x, y) \<in> set (candidates sys d) \<Longrightarrow> in_bounds sys d x y"
  by (auto simp: candidates_def in_bounds_def)

lemma packed_snoc:
  assumes "packed sys defs placed" "defs (defId item) = Some d"
    and "(x, y) \<in> set (candidates sys d)" "feasible defs placed d (x, y)"
  shows "packed sys defs (placed @ [item\<lparr>item_x := x, item_y := y\<rparr>])"
proof -
  let ?p = "item\<lparr>item_x := x, item_y := y\<rparr>"
  have b: "in_bounds sys d x y" using assms(3) by (rule candidates_in_bounds)
  have cov: "covers defs None ?p gx gy \<longleftrightarrow> occupies d x y gx gy" for gx gy
    using assms(2) by (simp add: covers_def)
  have new: "\<not> share_cell defs ?p q" if "q \<in> set placed" for q
    using assms(4) that unfolding feasible_iff share_cell_def cov by blast
  have 1: "\<forall>p\<in>set (placed @ [?p]). \<exists>d. defs (defId p) = Some d \<and> in_bounds sys d (item_x p) (item_y p)"
    using assms(1,2) b by (auto simp: packed_def)
  have 2: "\<not> share_cell defs ((placed @ [?p]) ! i) ((placed @ [?p]) ! j)"
    if "i < length (placed @ [?p])" "j < i" for i j
  proof (cases "i < length placed")
    case True
    then show ?thesis using assms(1) that by (simp add: packed_def nth_append)
  next
    case False
    then have "i = length placed" using that by simp
    then show ?thesis using that new by (simp add: nth_append)
  qed
  from 1 2 show ?thesis unfolding packed_def by blast
qed

lemma find_Some_holds: "find P xs = Some x \<Longrightarrow> P x"
  by (induction xs) (auto split: if_splits)

lemma first_fit_packed:
  "packed sys defs placed \<Longrightarrow> packed sys defs (first_fit sys defs placed its)"
proof (induction its arbitrary: placed)
  case Nil
  then show ?case by simp
next
  case (Cons item its)
  show ?case
  proof (cases "defs (defId item)")
    case None
    then show ?thesis using Cons by simp
  next
    case (Some d)
    show ?thesis
    proof (cases "find (feasible defs placed d) (candidates sys d)")
      case None
      then show ?thesis using Some Cons by simp
    next
      case (Some xy)
      obtain x y where xy: "xy = (x, y)" by (cases xy)
      have "packed sys defs (placed @ [item\<lparr>item_x := x, item_y := y\<rparr>])"
        using Cons.prems \<open>defs (defId item) = Some d\<close> Some xy
        by (intro packed_snoc [where d = d]) (auto dest: find_Some_mem find_Some_holds)
      from Cons.IH [OF this] show ?thesis
        using \<open>defs (defId item) = Some d\<close> Some xy by simp
    qed
  qed
qed

lemma first_fit_length:
  "length (first_fit sys defs placed its) \<le> length placed + length its"
proof (induction its arbitrary: placed)
  case Nil
  show ?case by simp
next
  case (Cons item its)
  show ?case
  proof (cases "defs (defId item)")
    case None
    then show ?thesis using Cons [of placed] by simp
  next
    case (Some d)
    show ?thesis
    proof (cases "find (feasible defs placed d) (candidates sys d)")
      case None
      then show ?thesis using Some Cons [of placed] by simp
    next
      case (Some xy)
      obtain x y where xy: "xy = (x, y)" by (cases xy)
      show ?thesis
        using \<open>defs (defId item) = Some d\<close> Some xy
          Cons [of "placed @ [item\<lparr>item_x := x, item_y := y\<rparr>]"]
        by simp
    qed
  qed
qed

lemma first_fit_fields:
  "\<exists>ys. subseq ys (map erase_xy its) \<and>
        map erase_xy (first_fit sys defs placed its) = map erase_xy placed @ ys"
proof (induction its arbitrary: placed)
  case Nil
  show ?case by simp
next
  case (Cons item its)
  have skip: ?case if "first_fit sys defs placed (item # its) = first_fit sys defs placed its"
  proof -
    from Cons [of placed] obtain ys where
      ys: "subseq ys (map erase_xy its)"
        "map erase_xy (first_fit sys defs placed its) = map erase_xy placed @ ys"
      by blast
    have "subseq ys (map erase_xy (item # its))" using ys(1) by auto
    with ys(2) that show ?thesis by metis
  qed
  show ?case
  proof (cases "defs (defId item)")
    case None
    then show ?thesis by (intro skip) simp
  next
    case (Some d)
    show ?thesis
    proof (cases "find (feasible defs placed d) (candidates sys d)")
      case None
      then show ?thesis using Some by (intro skip) simp
    next
      case (Some xy)
      obtain x y where xy: "xy = (x, y)" by (cases xy)
      let ?p = "item\<lparr>item_x := x, item_y := y\<rparr>"
      from Cons [of "placed @ [?p]"] obtain ys where
        ys: "subseq ys (map erase_xy its)"
          "map erase_xy (first_fit sys defs (placed @ [?p]) its) = map erase_xy (placed @ [?p]) @ ys"
        by blast
      have e: "erase_xy ?p = erase_xy item" by (simp add: erase_xy_def)
      have run: "first_fit sys defs placed (item # its) = first_fit sys defs (placed @ [?p]) its"
        using \<open>defs (defId item) = Some d\<close> Some xy by simp
      have "subseq (erase_xy item # ys) (map erase_xy (item # its))" using ys(1) by simp
      moreover have "map erase_xy (first_fit sys defs placed (item # its))
          = map erase_xy placed @ (erase_xy item # ys)"
        using ys(2) e run by simp
      ultimately show ?thesis by blast
    qed
  qed
qed


text \<open>
  C7. For a well-formed grid and catalog that knows every item, organize returns a list
  that is no longer than its input, in which the bounding box of every item lies within
  the grid and no two items at different positions of the list have an occupied cell at
  the same absolute grid position.
\<close>

theorem organize_packed:
  assumes "wf_grid sys" and "catalog_wf defs" and "known defs (items sys)"
  shows "\<exists>out. organize sys defs = Inr out \<and>
           length out \<le> length (items sys) \<and>
           (\<forall>p\<in>set out. \<exists>d. defs (defId p) = Some d \<and>
               0 \<le> item_x p \<and> 0 \<le> item_y p \<and>
               item_x p + width d \<le> cols sys \<and> item_y p + height d \<le> rows sys) \<and>
           (\<forall>i<length out. \<forall>j<length out. i \<noteq> j \<longrightarrow>
               \<not> (\<exists>gx gy. covers defs None (out ! i) gx gy \<and> covers defs None (out ! j) gx gy))"
proof -
  let ?order = "sort_key (\<lambda>a. - area defs a) (items sys)"
  let ?out = "first_fit sys defs [] ?order"
  have run: "organize sys defs = Inr ?out" using assms by (rule organize_spec)
  have len: "length ?out \<le> length (items sys)"
    using first_fit_length [of sys defs "[]" ?order] by simp
  have "packed sys defs []" by (simp add: packed_def)
  then have p: "packed sys defs ?out" by (rule first_fit_packed)
  have b: "\<forall>p\<in>set ?out. \<exists>d. defs (defId p) = Some d \<and>
               0 \<le> item_x p \<and> 0 \<le> item_y p \<and>
               item_x p + width d \<le> cols sys \<and> item_y p + height d \<le> rows sys"
    using p by (simp add: packed_def in_bounds_def)
  have lt: "\<not> share_cell defs (?out ! i) (?out ! j)" if "i < length ?out" "j < i" for i j
    using p that by (simp add: packed_def)
  have d: "\<not> (\<exists>gx gy. covers defs None (?out ! i) gx gy \<and> covers defs None (?out ! j) gx gy)"
    if "i < length ?out" "j < length ?out" "i \<noteq> j" for i j
  proof (cases "j < i")
    case True
    then show ?thesis using lt [of i j] that by (simp add: share_cell_def)
  next
    case False
    then have "i < j" using that by simp
    then show ?thesis using lt [of j i] that by (auto simp: share_cell_def)
  qed
  from run len b d show ?thesis by blast
qed
theorem organize_packed_witness:
  "wf_grid \<lparr>rows = 3, cols = 3,
      items = [\<lparr>instanceId = ''g'', defId = ''gem'', item_x = 0, item_y = 0, rotation = 0\<rparr>,
               \<lparr>instanceId = ''s'', defId = ''sword'', item_x = 0, item_y = 0, rotation = 0\<rparr>,
               \<lparr>instanceId = ''b'', defId = ''boots'', item_x = 0, item_y = 0, rotation = 0\<rparr>]\<rparr>
   \<and> catalog_wf ITEM_DEFINITIONS
   \<and> known ITEM_DEFINITIONS
       [\<lparr>instanceId = ''g'', defId = ''gem'', item_x = 0, item_y = 0, rotation = 0\<rparr>,
        \<lparr>instanceId = ''s'', defId = ''sword'', item_x = 0, item_y = 0, rotation = 0\<rparr>,
        \<lparr>instanceId = ''b'', defId = ''boots'', item_x = 0, item_y = 0, rotation = 0\<rparr>]
   \<and> (\<exists>out. organize \<lparr>rows = 3, cols = 3,
      items = [\<lparr>instanceId = ''g'', defId = ''gem'', item_x = 0, item_y = 0, rotation = 0\<rparr>,
               \<lparr>instanceId = ''s'', defId = ''sword'', item_x = 0, item_y = 0, rotation = 0\<rparr>,
               \<lparr>instanceId = ''b'', defId = ''boots'', item_x = 0, item_y = 0, rotation = 0\<rparr>]\<rparr>
        ITEM_DEFINITIONS = Inr out \<and> length out \<le> 3)"
proof -
  let ?its = "[\<lparr>instanceId = ''g'', defId = ''gem'', item_x = 0, item_y = 0, rotation = 0\<rparr>,
               \<lparr>instanceId = ''s'', defId = ''sword'', item_x = 0, item_y = 0, rotation = 0\<rparr>,
               \<lparr>instanceId = ''b'', defId = ''boots'', item_x = 0, item_y = 0, rotation = 0\<rparr>]"
  let ?sys = "\<lparr>rows = 3, cols = 3, items = ?its\<rparr>"
  have g: "wf_grid ?sys" by (simp add: wf_grid_def)
  have k: "known ITEM_DEFINITIONS ?its" by (simp add: known_def ITEM_DEFINITIONS_def)
  have k': "known ITEM_DEFINITIONS (items ?sys)" using k by simp
  from organize_packed [OF g catalog_wf_ITEM_DEFINITIONS k'] obtain out where
    "organize ?sys ITEM_DEFINITIONS = Inr out" "length out \<le> length (items ?sys)"
    by blast
  then have "\<exists>out. organize ?sys ITEM_DEFINITIONS = Inr out \<and> length out \<le> 3"
    by auto
  with g k catalog_wf_ITEM_DEFINITIONS show ?thesis by blast
qed

section \<open>organize leaves its inputs alone\<close>

lemma insort_refs:
  assumes "objs s r = Some x"
  shows "map (objs s) rs = map Some xs \<Longrightarrow>
         map (objs s) (insort_key (\<lambda>r. - obj_area defs s r) r rs)
           = map Some (insort_key (\<lambda>a. - area defs a) x xs)"
proof (induction rs arbitrary: xs)
  case Nil
  then show ?case using assms by simp
next
  case (Cons q rs)
  then obtain z zs where xs: "xs = z # zs" "objs s q = Some z" "map (objs s) rs = map Some zs"
    by (cases xs) auto
  show ?case
    using Cons.IH [OF xs(3)] assms xs by (simp add: obj_area_def)
qed

lemma sort_key_refs:
  "map (objs s) rs = map Some xs \<Longrightarrow>
   map (objs s) (sort_key (\<lambda>r. - obj_area defs s r) rs)
     = map Some (sort_key (\<lambda>a. - area defs a) xs)"
proof (induction rs arbitrary: xs)
  case Nil
  then show ?case by simp
next
  case (Cons q rs)
  then obtain z zs where xs: "xs = z # zs" "objs s q = Some z" "map (objs s) rs = map Some zs"
    by (cases xs) auto
  show ?case
    using insort_refs [OF xs(2) Cons.IH [OF xs(3)]] xs(1) by simp
qed

lemma sort_refs_known:
  assumes "known defs xs" "map (objs s) rs = map Some xs"
  shows "\<exists>sr. sort_refs defs s rs = Inr sr \<and> set sr = set rs \<and>
           map (objs s) sr = map Some (sort_key (\<lambda>a. - area defs a) xs)"
proof -
  have len: "length rs = length xs" using assms(2) by (metis length_map)
  have nth: "objs s (rs ! i) = Some (xs ! i)" if "i < length rs" for i
    using assms(2) that len by (metis nth_map)
  have ok: "\<not> list_ex (\<lambda>r. case objs s r of None \<Rightarrow> True | Some a \<Rightarrow> defs (defId a) = None) rs"
  proof
    assume "list_ex (\<lambda>r. case objs s r of None \<Rightarrow> True | Some a \<Rightarrow> defs (defId a) = None) rs"
    then obtain i where i: "i < length rs"
      "case objs s (rs ! i) of None \<Rightarrow> True | Some a \<Rightarrow> defs (defId a) = None"
      by (auto simp: list_ex_iff in_set_conv_nth)
    then have "defs (defId (xs ! i)) = None" using nth by simp
    moreover have "xs ! i \<in> set xs" using i(1) len by simp
    ultimately show False using assms(1) by (auto simp: known_def list_all_iff)
  qed
  show ?thesis
  proof (cases "length rs < 2")
    case True
    then show ?thesis using assms(2) len by (simp add: sort_refs_def sort_key_short)
  next
    case False
    then show ?thesis using ok sort_key_refs [OF assms(2)] by (simp add: sort_refs_def)
  qed
qed


lemma map_objs_cong:
  "\<forall>r\<in>set rs. objs s' r = objs s r \<Longrightarrow> map (objs s') rs = map (objs s) rs"
  by simp

lemma organize_loop_store_sim:
  "organize_loop sys defs acc g its = Inr out \<Longrightarrow>
   map (objs s) rs = map Some its \<Longrightarrow>
   arrs s newItems = Some accr \<Longrightarrow> map (objs s) accr = map Some acc \<Longrightarrow>
   \<forall>r\<in>set rs \<union> set accr. r < next_ref s \<Longrightarrow>
   \<exists>s' outr. organize_loop_store sys defs s newItems g rs = Inr s' \<and>
      (\<forall>r<next_ref s. objs s' r = objs s r) \<and>
      (\<forall>r. r \<noteq> newItems \<longrightarrow> arrs s' r = arrs s r) \<and>
      arrs s' newItems = Some (accr @ outr) \<and>
      map (objs s') (accr @ outr) = map Some out \<and>
      (\<forall>c\<in>set outr. next_ref s \<le> c)"
proof (induction rs arbitrary: its s g acc accr)
  case Nil
  then have "out = acc" by simp
  with Nil show ?case by simp
next
  case (Cons r rest)
  from Cons.prems(2) obtain item its' where its: "its = item # its'"
    and r: "objs s r = Some item" and rest: "map (objs s) rest = map Some its'"
    by (cases its) auto
  from Cons.prems(1) its obtain d where d: "defs (defId item) = Some d"
    by (auto split: option.splits)
  from Cons.prems(1) its d obtain res where
    res: "scan_y sys d g (js_range (rows sys - height d + 1)) = Inr res"
    by (auto split: sum.splits)
  show ?case
  proof (cases res)
    case None
    have run: "organize_loop sys defs acc g its' = Inr out"
      using Cons.prems(1) its d res None by simp
    have b: "\<forall>r\<in>set rest \<union> set accr. r < next_ref s" using Cons.prems(5) by simp
    from Cons.IH [OF run rest Cons.prems(3,4) b]
    show ?thesis using r d res None by simp
  next
    case (Some xy)
    obtain x y where xy: "xy = (x, y)" by (cases xy)
    let ?new = "item\<lparr>item_x := int x, item_y := int y\<rparr>"
    let ?c = "next_ref s"
    let ?s2 = "s\<lparr>objs := (objs s)(?c \<mapsto> ?new), next_ref := Suc ?c,
                 arrs := (arrs s)(newItems \<mapsto> accr @ [?c])\<rparr>"
    from Cons.prems(1) its d res Some xy obtain g' where
      g': "place_rows (shape d) g x y (width d) (js_range (height d)) = Inr g'"
      and run: "organize_loop sys defs (acc @ [?new]) g' its' = Inr out"
      by (auto split: sum.splits)
    have step: "organize_loop_store sys defs s newItems g (r # rest)
                  = organize_loop_store sys defs ?s2 newItems g' rest"
      using r d res Some xy g' Cons.prems(3) by (simp add: alloc_obj_def push_def)
    have old: "objs ?s2 q = objs s q" if "q < ?c" for q using that by simp
    have "map (objs ?s2) rest = map (objs s) rest"
      using Cons.prems(5) old by (intro map_objs_cong) auto
    then have 1: "map (objs ?s2) rest = map Some its'"
      using rest by simp
    have 2: "arrs ?s2 newItems = Some (accr @ [?c])" by simp
    have "map (objs ?s2) accr = map (objs s) accr"
      using Cons.prems(5) old by (intro map_objs_cong) auto
    then have 3: "map (objs ?s2) (accr @ [?c]) = map Some (acc @ [?new])"
      using Cons.prems(4) by simp
    have lt: "q < ?c" if "q \<in> set rest \<union> set accr" for q
      using Cons.prems(5) that by auto
    have 4: "\<forall>r\<in>set rest \<union> set (accr @ [?c]). r < next_ref ?s2"
      using lt by (auto simp: less_Suc_eq)
    from Cons.IH [OF run 1 2 3 4] obtain s' outr where
      s': "organize_loop_store sys defs ?s2 newItems g' rest = Inr s'"
      and f1: "\<forall>r<next_ref ?s2. objs s' r = objs ?s2 r"
      and f2: "\<forall>r. r \<noteq> newItems \<longrightarrow> arrs s' r = arrs ?s2 r"
      and a: "arrs s' newItems = Some ((accr @ [?c]) @ outr)"
      and m: "map (objs s') ((accr @ [?c]) @ outr) = map Some out"
      and fr: "\<forall>c\<in>set outr. next_ref ?s2 \<le> c"
      by blast
    have "organize_loop_store sys defs s newItems g (r # rest) = Inr s'"
      using step s' by simp
    moreover have "\<forall>r<?c. objs s' r = objs s r" using f1 by simp
    moreover have "\<forall>r. r \<noteq> newItems \<longrightarrow> arrs s' r = arrs s r" using f2 by simp
    moreover have "arrs s' newItems = Some (accr @ (?c # outr))" using a by simp
    moreover have "map (objs s') (accr @ (?c # outr)) = map Some out" using m by simp
    moreover have "\<forall>c\<in>set (?c # outr). ?c \<le> c" using fr by auto
    ultimately show ?thesis by blast
  qed
qed


lemma organize_loop_first_fit:
  assumes "wf_grid sys" "catalog_wf defs" "known defs (items sys)"
  shows "organize_loop sys defs []
           (replicate (nat (rows sys)) (replicate (nat (cols sys)) False))
           (sort_key (\<lambda>a. - area defs a) (items sys))
         = Inr (first_fit sys defs [] (sort_key (\<lambda>a. - area defs a) (items sys)))"
proof -
  have "known defs (sort_key (\<lambda>a. - area defs a) (items sys))"
    using assms(3) by (simp add: known_def list_all_iff)
  from organize_loop_spec [OF assms(2) this grid_rel_empty] show ?thesis .
qed


text \<open>
  C10. Run on a store that holds the item list of the system in the array
  \<^verbatim>\<open>this.items\<close>, organize returns and leaves every object and every array that
  existed before the call as it was: the stored item list still holds the same
  references in the same order, and every input record still has its fields. The
  result is a newly allocated array of newly allocated records; read through the final
  store they are the items the value-level organize returns, and without their
  coordinates they are, in order, a subsequence of the sorted input items: each
  returned record equals its input item in instanceId, defId and rotation.
\<close>

theorem organize_store_frame:
  assumes "wf_grid sys" and "catalog_wf defs" and "known defs (items sys)"
    and "store_wf s" and "arrs s this_items = Some refs"
    and "map (objs s) refs = map Some (items sys)"
  shows "\<exists>s' newItems outr out.
     organize_store s sys this_items defs = Inr (s', newItems) \<and>
     (\<forall>r<next_ref s. objs s' r = objs s r \<and> arrs s' r = arrs s r) \<and>
     arrs s' this_items = Some refs \<and> map (objs s') refs = map Some (items sys) \<and>
     next_ref s \<le> newItems \<and> arrs s' newItems = Some outr \<and>
     (\<forall>c\<in>set outr. next_ref s \<le> c) \<and>
     map (objs s') outr = map Some out \<and> organize sys defs = Inr out \<and>
     subseq (map erase_xy out) (map erase_xy (sort_key (\<lambda>a. - area defs a) (items sys)))"
proof -
  let ?n = "next_ref s"
  let ?order = "sort_key (\<lambda>a. - area defs a) (items sys)"
  let ?out = "first_fit sys defs [] ?order"
  let ?g0 = "replicate (nat (rows sys)) (replicate (nat (cols sys)) False)"
  let ?s1 = "s\<lparr>arrs := (arrs s)(?n \<mapsto> refs), next_ref := Suc ?n\<rparr>"
  have len: "length refs = length (items sys)" using assms(6) by (metis length_map)
  have refs_lt: "r < ?n" if "r \<in> set refs" for r
  proof -
    from that obtain i where "i < length refs" "refs ! i = r" by (auto simp: in_set_conv_nth)
    then have "objs s r = Some (items sys ! i)" using assms(6) len by (metis nth_map)
    then show ?thesis using assms(4) by (auto simp: store_wf_def)
  qed
  have this_lt: "this_items < ?n" using assms(4,5) by (auto simp: store_wf_def)
  have "map (objs ?s1) refs = map Some (items sys)" using assms(6) by simp
  from sort_refs_known [OF assms(3) this] obtain sr where
    sr: "sort_refs defs ?s1 refs = Inr sr" "set sr = set refs"
    and srm: "map (objs ?s1) sr = map Some ?order"
    by blast
  let ?s3 = "s\<lparr>arrs := (arrs s)(?n \<mapsto> sr, Suc ?n \<mapsto> []), next_ref := Suc (Suc ?n)\<rparr>"
  have run: "organize_store s sys this_items defs =
      (case organize_loop_store sys defs ?s3 (Suc ?n) ?g0 sr of
         Inl e \<Rightarrow> Inl e | Inr s' \<Rightarrow> Inr (s', Suc ?n))"
    using assms(1,5) sr(1) by (simp add: organize_store_def alloc_arr_def new_grid_wf)
  have loop: "organize_loop sys defs [] ?g0 ?order = Inr ?out"
    using assms(1-3) by (rule organize_loop_first_fit)
  have 1: "map (objs ?s3) sr = map Some ?order" using srm by simp
  have 2: "arrs ?s3 (Suc ?n) = Some []" by simp
  have 3: "map (objs ?s3) [] = map Some []" by simp
  have 4: "\<forall>r\<in>set sr \<union> set []. r < next_ref ?s3"
    using sr(2) refs_lt by (auto simp: less_Suc_eq)
  from organize_loop_store_sim [OF loop 1 2 3 4] obtain s' outr where
    s': "organize_loop_store sys defs ?s3 (Suc ?n) ?g0 sr = Inr s'"
    and f1: "\<forall>r<next_ref ?s3. objs s' r = objs ?s3 r"
    and f2: "\<forall>r. r \<noteq> Suc ?n \<longrightarrow> arrs s' r = arrs ?s3 r"
    and a: "arrs s' (Suc ?n) = Some ([] @ outr)"
    and m: "map (objs s') ([] @ outr) = map Some ?out"
    and fr: "\<forall>c\<in>set outr. next_ref ?s3 \<le> c"
    by blast
  have r1: "organize_store s sys this_items defs = Inr (s', Suc ?n)"
    using run s' by simp
  have r2: "\<forall>r<?n. objs s' r = objs s r \<and> arrs s' r = arrs s r"
    using f1 f2 by simp
  have r3: "arrs s' this_items = Some refs" using r2 this_lt assms(5) by simp
  have "map (objs s') refs = map (objs s) refs"
    using r2 refs_lt by (intro map_objs_cong) auto
  then have r4: "map (objs s') refs = map Some (items sys)" using assms(6) by simp
  have r5: "?n \<le> Suc ?n" by simp
  have r6: "arrs s' (Suc ?n) = Some outr" using a by simp
  have r7: "\<forall>c\<in>set outr. ?n \<le> c" using fr by auto
  have r8: "map (objs s') outr = map Some ?out" using m by simp
  have r9: "organize sys defs = Inr ?out" using assms(1-3) by (rule organize_spec)
  have r10: "subseq (map erase_xy ?out) (map erase_xy ?order)"
    using first_fit_fields [of ?order sys defs "[]"] by auto
  from r1 r2 r3 r4 r5 r6 r7 r8 r9 r10 show ?thesis by blast
qed

theorem organize_store_frame_witness:
  "wf_grid \<lparr>rows = 1, cols = 1,
      items = [\<lparr>instanceId = ''A'', defId = ''gem'', item_x = 3, item_y = 3, rotation = 0\<rparr>]\<rparr>
   \<and> catalog_wf ITEM_DEFINITIONS
   \<and> store_wf \<lparr>objs = [0 \<mapsto> \<lparr>instanceId = ''A'', defId = ''gem'', item_x = 3, item_y = 3, rotation = 0\<rparr>],
               arrs = [1 \<mapsto> [0]], next_ref = 2\<rparr>
   \<and> (\<exists>s' newItems.
        organize_store
          \<lparr>objs = [0 \<mapsto> \<lparr>instanceId = ''A'', defId = ''gem'', item_x = 3, item_y = 3, rotation = 0\<rparr>],
           arrs = [1 \<mapsto> [0]], next_ref = 2\<rparr>
          \<lparr>rows = 1, cols = 1,
           items = [\<lparr>instanceId = ''A'', defId = ''gem'', item_x = 3, item_y = 3, rotation = 0\<rparr>]\<rparr>
          1 ITEM_DEFINITIONS = Inr (s', newItems) \<and>
        arrs s' 1 = Some [0] \<and>
        objs s' 0 = Some \<lparr>instanceId = ''A'', defId = ''gem'', item_x = 3, item_y = 3, rotation = 0\<rparr>)"
proof -
  let ?a = "\<lparr>instanceId = ''A'', defId = ''gem'', item_x = 3, item_y = 3, rotation = 0\<rparr>"
  let ?sys = "\<lparr>rows = 1, cols = 1, items = [?a]\<rparr>"
  let ?s = "\<lparr>objs = [0 \<mapsto> ?a], arrs = [1 \<mapsto> [0]], next_ref = 2\<rparr>"
  have g: "wf_grid ?sys" by (simp add: wf_grid_def)
  have k: "known ITEM_DEFINITIONS (items ?sys)" by (simp add: known_def ITEM_DEFINITIONS_def)
  have w: "store_wf ?s" by (auto simp: store_wf_def split: if_splits)
  have a: "arrs ?s 1 = Some [0]" by simp
  have m: "map (objs ?s) [0] = map Some (items ?sys)" by simp
  from organize_store_frame [OF g catalog_wf_ITEM_DEFINITIONS k w a m] obtain s' newItems where
    "organize_store ?s ?sys 1 ITEM_DEFINITIONS = Inr (s', newItems)"
    "\<forall>r<next_ref ?s. objs s' r = objs ?s r \<and> arrs s' r = arrs ?s r"
    by blast
  then have "\<exists>s' newItems. organize_store ?s ?sys 1 ITEM_DEFINITIONS = Inr (s', newItems) \<and>
        arrs s' 1 = Some [0] \<and> objs s' 0 = Some ?a"
    by (intro exI[of _ s'] exI[of _ newItems]) simp
  with g w catalog_wf_ITEM_DEFINITIONS show ?thesis by blast
qed
end
